theory Spec2Isabelle
  imports Complex_Main
begin

section \<open>Exceptions and sequencing\<close>

text \<open>
  The notebooks are Python with numpy and scipy. An exception that leaves a function is
  the left summand of the result; \<open>SolverError\<close> stands for whatever the external
  eigensolver raises. Statements of exact arithmetic are over the reals, and the complex
  numbers in the transform; what \<open>float64\<close> rounding does to them is computed with the
  binary64 numbers below. Point counts and the eigenvalue count are natural numbers.
\<close>

datatype error = IndexError | ValueError | SolverError

definition and_then :: "error + 'a \<Rightarrow> ('a \<Rightarrow> error + 'b) \<Rightarrow> error + 'b" where
  "and_then m f = (case m of Inl e \<Rightarrow> Inl e | Inr a \<Rightarrow> f a)"

text \<open>\<open>for i in idx: s = body(i, s)\<close>; the first exception ends the loop.\<close>

fun for_loop :: "nat list \<Rightarrow> (nat \<Rightarrow> 's \<Rightarrow> error + 's) \<Rightarrow> 's \<Rightarrow> error + 's" where
  "for_loop [] body s = Inr s"
| "for_loop (i # idx) body s =
     (case body i s of Inl e \<Rightarrow> Inl e | Inr s' \<Rightarrow> for_loop idx body s')"

section \<open>One-dimensional arrays\<close>

text \<open>\<open>xs[i]\<close> and \<open>xs[i] = v\<close> for a non-negative index: out of range raises.\<close>

definition getitem :: "'a list \<Rightarrow> nat \<Rightarrow> error + 'a" where
  "getitem xs i = (if i < length xs then Inr (xs ! i) else Inl IndexError)"

definition setitem :: "'a list \<Rightarrow> nat \<Rightarrow> 'a \<Rightarrow> error + 'a list" where
  "setitem xs i v = (if i < length xs then Inr (xs[i := v]) else Inl IndexError)"

text \<open>
  \<open>np.linspace(start, stop, num)\<close> with the endpoint included, over the reals: numpy
  computes \<open>step = (stop - start) / (num - 1)\<close>, the samples \<open>start + i * step\<close>, and
  then stores \<open>stop\<close> in the last cell when \<open>num > 1\<close>. One sample is \<open>[start]\<close>, none
  is the empty array.
\<close>

definition linspace :: "real \<Rightarrow> real \<Rightarrow> nat \<Rightarrow> real list" where
  "linspace start stop num =
     (let step = (stop - start) / real (num - 1);
          y = map (\<lambda>i. start + real i * step) [0..<num]
      in if num > 1 then y[num - 1 := stop] else y)"

section \<open>binary64 numbers\<close>

text \<open>
  What numpy computes with: a finite \<open>float64\<close> is \<open>m * 2 ^ e\<close> for integers \<open>m\<close> and
  \<open>e\<close>, and every operation returns the exact result rounded to the nearest number of
  53 significant bits, ties to the even mantissa. Overflow, subnormal numbers,
  infinities and NaN are outside this model. Two pairs \<open>(m, e)\<close> can stand for one
  number; \<open>f64_val\<close> is the number.
\<close>

datatype f64 = F64 int int

definition f64_val :: "f64 \<Rightarrow> real" where
  "f64_val x = (case x of F64 m e \<Rightarrow>
     if 0 \<le> e then of_int m * 2 ^ nat e else of_int m / 2 ^ nat (- e))"

text \<open>The number of binary digits of a positive integer.\<close>

function bits :: "int \<Rightarrow> int" where
  "bits n = (if n \<le> 0 then 0 else 1 + bits (n div 2))"
  by auto
termination
  by (relation "measure nat") auto

text \<open>\<open>p / q\<close> rounded to the nearest integer, ties to even, for \<open>p \<ge> 0\<close> and \<open>q > 0\<close>.\<close>

definition round_half_even :: "int \<Rightarrow> int \<Rightarrow> int" where
  "round_half_even p q =
     (let n = p div q; r = p mod q
      in if 2 * r < q then n else if q < 2 * r then n + 1 else if even n then n else n + 1)"

text \<open>
  The \<open>float64\<close> nearest to \<open>(n / d) * 2 ^ e\<close>, for \<open>d > 0\<close>: the exponent \<open>k\<close> is chosen
  so that \<open>|n| / (d * 2 ^ k)\<close> lies in \<open>[2 ^ 52, 2 ^ 53)\<close>, and that quotient is rounded.
\<close>

definition f64_round :: "int \<Rightarrow> int \<Rightarrow> int \<Rightarrow> f64" where
  "f64_round n d e =
     (if n = 0 then F64 0 0
      else let a = \<bar>n\<bar>;
               k0 = bits a - bits d - 53;
               scaled = (\<lambda>k. if 0 \<le> k then (a, d * 2 ^ nat k) else (a * 2 ^ nat (- k), d));
               k = (case scaled k0 of (p, q) \<Rightarrow> if 2 ^ 53 * q \<le> p then k0 + 1 else k0);
               m = (case scaled k of (p, q) \<Rightarrow> round_half_even p q)
           in F64 (sgn n * m) (k + e))"

instantiation f64 :: "{zero, one, plus, minus, times, inverse}"
begin

definition zero_f64 :: f64 where
  "zero_f64 = F64 0 0"

definition one_f64 :: f64 where
  "one_f64 = F64 1 0"

definition plus_f64 :: "f64 \<Rightarrow> f64 \<Rightarrow> f64" where
  "plus_f64 x y = (case x of F64 m1 e1 \<Rightarrow> case y of F64 m2 e2 \<Rightarrow>
     let e = min e1 e2 in f64_round (m1 * 2 ^ nat (e1 - e) + m2 * 2 ^ nat (e2 - e)) 1 e)"

definition minus_f64 :: "f64 \<Rightarrow> f64 \<Rightarrow> f64" where
  "minus_f64 x y = (case x of F64 m1 e1 \<Rightarrow> case y of F64 m2 e2 \<Rightarrow>
     let e = min e1 e2 in f64_round (m1 * 2 ^ nat (e1 - e) - m2 * 2 ^ nat (e2 - e)) 1 e)"

definition times_f64 :: "f64 \<Rightarrow> f64 \<Rightarrow> f64" where
  "times_f64 x y = (case x of F64 m1 e1 \<Rightarrow> case y of F64 m2 e2 \<Rightarrow>
     f64_round (m1 * m2) 1 (e1 + e2))"

definition divide_f64 :: "f64 \<Rightarrow> f64 \<Rightarrow> f64" where
  "divide_f64 x y = (case x of F64 m1 e1 \<Rightarrow> case y of F64 m2 e2 \<Rightarrow>
     f64_round (m1 * sgn m2) \<bar>m2\<bar> (e1 - e2))"

definition inverse_f64 :: "f64 \<Rightarrow> f64" where
  "inverse_f64 y = (case y of F64 m2 e2 \<Rightarrow> f64_round (sgn m2) \<bar>m2\<bar> (- e2))"

instance ..

end

instance f64 :: power ..

definition f64_of_nat :: "nat \<Rightarrow> f64" where
  "f64_of_nat n = f64_round (int n) 1 0"

text \<open>
  \<open>np.linspace(start, stop, num)\<close> as numpy computes it in \<open>float64\<close>:
  \<^verbatim>\<open>
  div = num - 1
  delta = stop - start
  y = arange(0, num)
  if div > 0:
      step = delta / div
      y = y * step
  else:
      y = y * delta
  y += start
  if num > 1:
      y[-1] = stop
  \<close>
  (the branch of numpy for a step that underflows to zero is left out).
\<close>

definition linspace_f64 :: "f64 \<Rightarrow> f64 \<Rightarrow> nat \<Rightarrow> f64 list" where
  "linspace_f64 start stop num =
     (let divisor = num - 1;
          delta = stop - start;
          y = map f64_of_nat [0..<num];
          y = (if divisor > 0 then map (\<lambda>v. v * (delta / f64_of_nat divisor)) y
               else map (\<lambda>v. v * delta) y);
          y = map (\<lambda>v. v + start) y
      in if num > 1 then y[num - 1 := stop] else y)"

section \<open>Sparse matrices\<close>

text \<open>
  A scipy sparse matrix is a shape and the entries at the positions inside it. The
  storage format (\<open>lil\<close>, \<open>csc\<close>) does not change either, so \<open>tolil\<close> and \<open>tocsc\<close> are
  the identity here.
\<close>

record matrix =
  nrows :: nat
  ncols :: nat
  ent :: "nat \<Rightarrow> nat \<Rightarrow> real"

definition todense :: "matrix \<Rightarrow> real list list" where
  "todense A = map (\<lambda>i. map (\<lambda>j. ent A i j) [0..<ncols A]) [0..<nrows A]"

definition eye :: "nat \<Rightarrow> nat \<Rightarrow> matrix" where
  "eye n m = \<lparr>nrows = n, ncols = m, ent = (\<lambda>i j. if i = j then 1 else 0)\<rparr>"

definition smult :: "matrix \<Rightarrow> real \<Rightarrow> matrix" where
  "smult A c = A\<lparr>ent := (\<lambda>i j. ent A i j * c)\<rparr>"

definition sdiv :: "matrix \<Rightarrow> real \<Rightarrow> matrix" where
  "sdiv A c = A\<lparr>ent := (\<lambda>i j. ent A i j / c)\<rparr>"

text \<open>\<open>A + B\<close>: scipy raises ValueError when the shapes differ.\<close>

definition madd :: "matrix \<Rightarrow> matrix \<Rightarrow> error + matrix" where
  "madd A B =
     (if nrows A = nrows B \<and> ncols A = ncols B
      then Inr (A\<lparr>ent := (\<lambda>i j. ent A i j + ent B i j)\<rparr>)
      else Inl ValueError)"

text \<open>
  \<open>sparse.kron(A, B)\<close>: the block matrix whose block \<open>(i, j)\<close> is \<open>A[i, j] * B\<close>, so row
  \<open>r\<close> lies in block row \<open>r div nrows B\<close> at row \<open>r mod nrows B\<close> of the block.
\<close>

definition kron :: "matrix \<Rightarrow> matrix \<Rightarrow> matrix" where
  "kron A B =
     \<lparr>nrows = nrows A * nrows B, ncols = ncols A * ncols B,
      ent = (\<lambda>r c. ent A (r div nrows B) (c div ncols B) *
                    ent B (r mod nrows B) (c mod ncols B))\<rparr>"

text \<open>\<open>H[i, j]\<close> and \<open>H[i, j] = v\<close>: out of the shape raises IndexError.\<close>

definition mget :: "matrix \<Rightarrow> nat \<Rightarrow> nat \<Rightarrow> error + real" where
  "mget H i j = (if i < nrows H \<and> j < ncols H then Inr (ent H i j) else Inl IndexError)"

definition mset :: "matrix \<Rightarrow> nat \<Rightarrow> nat \<Rightarrow> real \<Rightarrow> error + matrix" where
  "mset H i j v =
     (if i < nrows H \<and> j < ncols H
      then Inr (H\<lparr>ent := (\<lambda>r c. if r = i \<and> c = j then v else ent H r c)\<rparr>)
      else Inl IndexError)"

section \<open>The three-dimensional Schroedinger solver\<close>

subsection \<open>\<open>create_hamiltonian\<close>\<close>

text \<open>
  \<^verbatim>\<open>
  H = sparse.eye(Nx, Nx, format='lil') * 2
  for i in range(Nx - 1):
      H[i, i + 1] = -1
      H[i + 1, i] = -1
  H = H / (dx ** 2)
  return H
  \<close>
  \<open>range(Nx - 1)\<close> is empty for \<open>Nx = 0\<close>, as \<open>[0..<Nx - 1]\<close> is.
\<close>

definition create_hamiltonian_body :: "nat \<Rightarrow> matrix \<Rightarrow> error + matrix" where
  "create_hamiltonian_body i H =
     and_then (mset H i (i + 1) (- 1)) (\<lambda>H. mset H (i + 1) i (- 1))"

definition create_hamiltonian :: "nat \<Rightarrow> real \<Rightarrow> error + matrix" where
  "create_hamiltonian Nx dx =
     and_then (for_loop [0..<Nx - 1] create_hamiltonian_body (smult (eye Nx Nx) 2))
       (\<lambda>H. Inr (sdiv H (dx ^ 2)))"

subsection \<open>\<open>schrodinger3D\<close>\<close>

text \<open>\<open>dx = x[1] - x[0]\<close>, the left operand read first.\<close>

definition step_size :: "'a::minus list \<Rightarrow> error + 'a" where
  "step_size x = and_then (getitem x 1) (\<lambda>x1. and_then (getitem x 0) (\<lambda>x0. Inr (x1 - x0)))"

text \<open>
  The kinetic operator of the three axes:
  \<^verbatim>\<open>
  Hx = create_hamiltonian(Nx, dx)
  Hy = create_hamiltonian(Ny, dy)
  Hz = create_hamiltonian(Nz, dz)
  Ix = sparse.eye(Nx)
  Iy = sparse.eye(Ny)
  Iz = sparse.eye(Nz)
  Hxy = sparse.kron(Iy, Hx) + sparse.kron(Hy, Ix)
  Ixy = sparse.kron(Iy, Ix)
  H = sparse.kron(Iz, Hxy) + sparse.kron(Hz, Ixy)
  \<close>
\<close>

definition kinetic3D :: "nat \<Rightarrow> real \<Rightarrow> nat \<Rightarrow> real \<Rightarrow> nat \<Rightarrow> real \<Rightarrow> error + matrix" where
  "kinetic3D Nx dx Ny dy Nz dz =
     and_then (create_hamiltonian Nx dx) (\<lambda>Hx.
     and_then (create_hamiltonian Ny dy) (\<lambda>Hy.
     and_then (create_hamiltonian Nz dz) (\<lambda>Hz.
     let Ix = eye Nx Nx; Iy = eye Ny Ny; Iz = eye Nz Nz in
     and_then (madd (kron Iy Hx) (kron Hy Ix)) (\<lambda>Hxy.
     let Ixy = kron Iy Ix in
     madd (kron Iz Hxy) (kron Hz Ixy)))))"

text \<open>
  \<^verbatim>\<open>
  H = H.tolil()
  for i in range(Nx * Ny * Nz):
      H[i, i] = H[i, i] + V[i]
  \<close>
  In \<open>H[i, i] + V[i]\<close> the matrix entry is read first.
\<close>

definition add_potential_body :: "real list \<Rightarrow> nat \<Rightarrow> matrix \<Rightarrow> error + matrix" where
  "add_potential_body V i H =
     and_then (mget H i i) (\<lambda>h. and_then (getitem V i) (\<lambda>v. mset H i i (h + v)))"

definition add_potential :: "nat \<Rightarrow> matrix \<Rightarrow> real list \<Rightarrow> error + matrix" where
  "add_potential M H V = for_loop [0..<M] (add_potential_body V) H"

text \<open>
  Everything \<open>schrodinger3D\<close> does before it calls the eigensolver: the three grids and
  their steps, the potential vector (the caller's function, which may raise), the kinetic
  operator, the diagonal update. It yields the grids and the matrix handed to the solver.
\<close>

type_synonym 'p potential = "real list \<Rightarrow> real list \<Rightarrow> real list \<Rightarrow> 'p \<Rightarrow> error + real list"

definition hamiltonian3D ::
  "real \<Rightarrow> real \<Rightarrow> nat \<Rightarrow> real \<Rightarrow> real \<Rightarrow> nat \<Rightarrow> real \<Rightarrow> real \<Rightarrow> nat \<Rightarrow>
   'p potential \<Rightarrow> 'p \<Rightarrow> error + (real list \<times> real list \<times> real list \<times> matrix)" where
  "hamiltonian3D xmin xmax Nx ymin ymax Ny zmin zmax Nz Vfun3D params =
     (let x = linspace xmin xmax Nx in
      and_then (step_size x) (\<lambda>dx.
      let y = linspace ymin ymax Ny in
      and_then (step_size y) (\<lambda>dy.
      let z = linspace zmin zmax Nz in
      and_then (step_size z) (\<lambda>dz.
      and_then (Vfun3D x y z params) (\<lambda>V.
      and_then (kinetic3D Nx dx Ny dy Nz dz) (\<lambda>H.
      and_then (add_potential (Nx * Ny * Nz) H V) (\<lambda>H.
      Inr (x, y, z, H))))))))"

text \<open>
  \<open>sla.eigs(H, k=neigs, sigma=E0)\<close> is an external routine: a parameter that, given the
  matrix, the count and the shift, raises or returns eigenvalues and eigenvectors.
  \<^verbatim>\<open>
  [evl, evt] = sla.eigs(H, k=neigs, sigma=E0)
  if findpsi == False:
      return evl
  else:
      return evl, evt, x, y, z
  \<close>
\<close>

type_synonym eigensolver =
  "matrix \<Rightarrow> nat \<Rightarrow> real \<Rightarrow> error + (complex list \<times> complex list list)"

datatype returned =
  Eigenvalues "complex list"
| Eigenpairs "complex list" "complex list list" "real list" "real list" "real list"

definition schrodinger3D ::
  "eigensolver \<Rightarrow> real \<Rightarrow> real \<Rightarrow> nat \<Rightarrow> real \<Rightarrow> real \<Rightarrow> nat \<Rightarrow> real \<Rightarrow> real \<Rightarrow> nat \<Rightarrow>
   'p potential \<Rightarrow> 'p \<Rightarrow> nat \<Rightarrow> real \<Rightarrow> bool \<Rightarrow> error + returned" where
  "schrodinger3D eigs xmin xmax Nx ymin ymax Ny zmin zmax Nz Vfun3D params neigs E0 findpsi =
     and_then (hamiltonian3D xmin xmax Nx ymin ymax Ny zmin zmax Nz Vfun3D params)
       (\<lambda>(x, y, z, H).
     and_then (eigs H neigs E0) (\<lambda>(evl, evt).
     if findpsi = False then Inr (Eigenvalues evl)
     else Inr (Eigenpairs evl evt x y z)))"

subsection \<open>The potential of \<open>sho_eigenenergies\<close>\<close>

text \<open>
  \<^verbatim>\<open>
  def Vfun(X, Y, Z, params):
      Nx = len(X); Ny = len(Y); Nz = len(Z)
      M = Nx * Ny * Nz
      V = np.zeros(M)
      vindex = 0
      for i in range(Nx):
          for j in range(Ny):
              for k in range(Nz):
                  V[vindex] = params[0]*X[i] ** 2 + params[1]*Y[j] ** 2 + params[2]*Z[k] ** 2
                  vindex = vindex + 1
      return V
  \<close>
  The loop state is the pair of \<open>V\<close> and \<open>vindex\<close>; the reads of the right-hand side
  are in the order of the source. The arithmetic is that of the element type, the sum
  taken from left to right as Python does: exact over the reals, rounded over \<open>f64\<close>,
  where \<open>x ** 2\<close> is taken as the rounded product \<open>x * x\<close>.
\<close>

definition Vfun_body ::
  "'a::{plus, power} list \<Rightarrow> 'a list \<Rightarrow> 'a list \<Rightarrow> 'a list \<Rightarrow> nat \<Rightarrow> nat \<Rightarrow> nat \<Rightarrow>
   'a list \<times> nat \<Rightarrow> error + 'a list \<times> nat" where
  "Vfun_body X Y Z params i j k s =
     (case s of (V, vindex) \<Rightarrow>
        and_then (getitem params 0) (\<lambda>p0.
        and_then (getitem X i) (\<lambda>xi.
        and_then (getitem params 1) (\<lambda>p1.
        and_then (getitem Y j) (\<lambda>yj.
        and_then (getitem params 2) (\<lambda>p2.
        and_then (getitem Z k) (\<lambda>zk.
        and_then (setitem V vindex (p0 * xi ^ 2 + p1 * yj ^ 2 + p2 * zk ^ 2)) (\<lambda>V.
        Inr (V, vindex + 1)))))))))"

definition Vfun ::
  "'a::{zero, plus, power} list \<Rightarrow> 'a list \<Rightarrow> 'a list \<Rightarrow> 'a list \<Rightarrow> error + 'a list" where
  "Vfun X Y Z params =
     (let Nx = length X; Ny = length Y; Nz = length Z;
          M = Nx * Ny * Nz
      in and_then
           (for_loop [0..<Nx] (\<lambda>i.
              for_loop [0..<Ny] (\<lambda>j.
                for_loop [0..<Nz] (\<lambda>k. Vfun_body X Y Z params i j k)))
              (replicate M 0, 0))
           (\<lambda>(V, vindex). Inr V))"

text \<open>
  The same sampling with the nesting of the axes reversed, \<open>z\<close> outermost and \<open>x\<close>
  innermost; the body of the loops is unchanged. This is the order that C8 compares
  \<open>Vfun\<close> with, not a function of the notebook.
\<close>

definition Vfun_reversed ::
  "'a::{zero, plus, power} list \<Rightarrow> 'a list \<Rightarrow> 'a list \<Rightarrow> 'a list \<Rightarrow> error + 'a list" where
  "Vfun_reversed X Y Z params =
     (let Nx = length X; Ny = length Y; Nz = length Z;
          M = Nx * Ny * Nz
      in and_then
           (for_loop [0..<Nz] (\<lambda>k.
              for_loop [0..<Ny] (\<lambda>j.
                for_loop [0..<Nx] (\<lambda>i. Vfun_body X Y Z params i j k)))
              (replicate M 0, 0))
           (\<lambda>(V, vindex). Inr V))"

section \<open>The discrete Fourier transform\<close>

text \<open>\<open>np.dot\<close> of two one-dimensional arrays of one length.\<close>

definition dot :: "complex list \<Rightarrow> complex list \<Rightarrow> complex" where
  "dot xs ys = sum_list (map (\<lambda>(a, b). a * b) (zip xs ys))"

text \<open>
  \<^verbatim>\<open>
  N = len(X)
  x = np.zeros(N, 'complex')
  K = np.arange(0, N, 1)
  for n in range(0, N, 1):
      x[n] = np.dot(X, np.exp(1j * 2 * np.pi * K * n / N))
  return x
  \<close>
  The loop fills the cells \<open>0, \<dots>, N - 1\<close> of \<open>x\<close> in turn, each from \<open>X\<close> alone;
  \<open>idft\<close> has \<open>-1j\<close> for \<open>1j\<close> and returns \<open>x / N\<close>.
\<close>

definition dft :: "complex list \<Rightarrow> complex list" where
  "dft X =
     (let N = length X; K = [0..<N]
      in map (\<lambda>n. dot X (map (\<lambda>k. exp (\<i> * 2 * of_real pi * of_nat k * of_nat n / of_nat N)) K))
           [0..<N])"

definition idft :: "complex list \<Rightarrow> complex list" where
  "idft X =
     (let N = length X; K = [0..<N];
          x = map (\<lambda>n. dot X (map (\<lambda>k. exp (- \<i> * 2 * of_real pi * of_nat k * of_nat n / of_nat N)) K))
                [0..<N]
      in map (\<lambda>v. v / of_nat N) x)"

section \<open>Loops\<close>

lemma and_then_Inr: "and_then (Inr a) f = f a"
  by (simp add: and_then_def)

lemma and_then_Inl: "and_then (Inl e) f = Inl e"
  by (simp add: and_then_def)

lemma for_loop_append:
  "for_loop (xs @ ys) body s = and_then (for_loop xs body s) (for_loop ys body)"
  by (induction xs arbitrary: s) (auto simp: and_then_def split: sum.splits)

section \<open>The one-dimensional operator\<close>

lemma create_hamiltonian_body_Inr:
  assumes "i + 1 < nrows H" "i + 1 < ncols H"
  shows "create_hamiltonian_body i H =
    Inr (H\<lparr>ent := (\<lambda>r c. if (r = i \<and> c = i + 1) \<or> (r = i + 1 \<and> c = i) then - 1 else ent H r c)\<rparr>)"
  using assms by (auto simp: create_hamiltonian_body_def mset_def and_then_def fun_eq_iff)

text \<open>The loop invariant: after \<open>m\<close> rounds the first \<open>m\<close> couplings on either side are set.\<close>

lemma create_hamiltonian_loop:
  assumes "m \<le> N - 1" "nrows H = N" "ncols H = N"
  shows "for_loop [0..<m] create_hamiltonian_body H =
    Inr (H\<lparr>ent := (\<lambda>r c. if (c = r + 1 \<and> r < m) \<or> (r = c + 1 \<and> c < m) then - 1 else ent H r c)\<rparr>)"
  using assms
proof (induction m)
  case 0
  then show ?case by simp
next
  case (Suc m)
  have in_range: "m + 1 < N" using Suc.prems(1) by simp
  have "for_loop [0..<Suc m] create_hamiltonian_body H =
        and_then (for_loop [0..<m] create_hamiltonian_body H) (for_loop [m] create_hamiltonian_body)"
    by (simp add: for_loop_append)
  also have "\<dots> = for_loop [m] create_hamiltonian_body
      (H\<lparr>ent := (\<lambda>r c. if (c = r + 1 \<and> r < m) \<or> (r = c + 1 \<and> c < m) then - 1 else ent H r c)\<rparr>)"
    using Suc by (simp add: and_then_Inr)
  also have "\<dots> = Inr (H\<lparr>ent := (\<lambda>r c. if (c = r + 1 \<and> r < Suc m) \<or> (r = c + 1 \<and> c < Suc m) then - 1 else ent H r c)\<rparr>)"
    using in_range Suc.prems(2,3)
    by (auto simp: create_hamiltonian_body_Inr fun_eq_iff less_Suc_eq)
  finally show ?case .
qed

text \<open>\<open>create_hamiltonian\<close> never raises; its result in closed form.\<close>

lemma create_hamiltonian_eq:
  "create_hamiltonian N dx =
     Inr \<lparr>nrows = N, ncols = N,
          ent = (\<lambda>r c. (if (c = r + 1 \<and> r < N - 1) \<or> (r = c + 1 \<and> c < N - 1) then - 1
                        else if r = c then 2 else 0) / dx ^ 2)\<rparr>"
  unfolding create_hamiltonian_def
  by (subst create_hamiltonian_loop [where N = N])
     (auto simp: eye_def smult_def sdiv_def and_then_Inr fun_eq_iff)

section \<open>Grids\<close>

lemma length_linspace: "length (linspace a b n) = n"
  by (simp add: linspace_def Let_def)

lemma linspace_nth:
  assumes "i < n"
  shows "linspace a b n ! i = a + real i * ((b - a) / real (n - 1))"
proof (cases "i = n - 1 \<and> 1 < n")
  case True
  then have "real (n - 1) \<noteq> 0" by simp
  then have "a + real (n - 1) * ((b - a) / real (n - 1)) = b" by simp
  with True show ?thesis by (simp add: linspace_def Let_def)
next
  case False
  with assms show ?thesis by (auto simp: linspace_def Let_def)
qed

lemma step_size_linspace:
  "step_size (linspace a b n) = (if n < 2 then Inl IndexError else Inr ((b - a) / real (n - 1)))"
  by (auto simp: step_size_def getitem_def and_then_def length_linspace linspace_nth)

section \<open>The kinetic operator\<close>

text \<open>Arithmetic of the flat index of a Kronecker product.\<close>

lemma mod_mult_div_nat: "(r mod (q * n)) div n = (r div n) mod (q::nat)"
proof (cases "n = 0")
  case True
  then show ?thesis by simp
next
  case False
  have "r mod (n * q) = n * (r div n mod q) + r mod n"
    by (rule mod_mult2_eq)
  then have "(r mod (q * n)) div n = (n * (r div n mod q) + r mod n) div n"
    by (simp add: mult.commute)
  also have "\<dots> = r div n mod q"
    using False by simp
  finally show ?thesis .
qed

lemma mod_mult_mod_nat: "(r mod (q * n)) mod n = r mod (n::nat)"
  by (simp add: mod_mod_cancel)

lemma kinetic3D_entries:
  assumes "create_hamiltonian Nx dx = Inr Hx" "create_hamiltonian Ny dy = Inr Hy"
    "create_hamiltonian Nz dz = Inr Hz"
  shows "\<exists>H. kinetic3D Nx dx Ny dy Nz dz = Inr H \<and>
     nrows H = Nx * Ny * Nz \<and> ncols H = Nx * Ny * Nz \<and>
     (\<forall>r c. ent H r c =
       (if r div (Ny * Nx) = c div (Ny * Nx) \<and> (r div Nx) mod Ny = (c div Nx) mod Ny
        then ent Hx (r mod Nx) (c mod Nx) else 0) +
       (if r div (Ny * Nx) = c div (Ny * Nx) \<and> r mod Nx = c mod Nx
        then ent Hy ((r div Nx) mod Ny) ((c div Nx) mod Ny) else 0) +
       (if (r div Nx) mod Ny = (c div Nx) mod Ny \<and> r mod Nx = c mod Nx
        then ent Hz (r div (Ny * Nx)) (c div (Ny * Nx)) else 0))"
proof -
  have shape: "nrows Hx = Nx" "ncols Hx = Nx" "nrows Hy = Ny" "ncols Hy = Ny"
    "nrows Hz = Nz" "ncols Hz = Nz"
    using assms by (auto simp: create_hamiltonian_eq)
  have "kinetic3D Nx dx Ny dy Nz dz = Inr
     \<lparr>nrows = Nz * (Ny * Nx), ncols = Nz * (Ny * Nx),
      ent = (\<lambda>i j. (if i div (Ny * Nx) = j div (Ny * Nx) then 1 else 0) *
               ((if i div Nx mod Ny = j div Nx mod Ny then 1 else 0) * ent Hx (i mod Nx) (j mod Nx) +
                ent Hy (i div Nx mod Ny) (j div Nx mod Ny) * (if i mod Nx = j mod Nx then 1 else 0)) +
               ent Hz (i div (Ny * Nx)) (j div (Ny * Nx)) *
               ((if i div Nx mod Ny = j div Nx mod Ny then 1 else 0) *
                (if i mod Nx = j mod Nx then 1 else 0)))\<rparr>"
    using shape
    by (simp add: kinetic3D_def assms and_then_Inr Let_def madd_def kron_def eye_def
        mod_mult_div_nat mod_mult_mod_nat)
  then show ?thesis
    by (simp add: mult.commute)
qed

lemma kron_eye_eye:
  "ent (kron (eye Ny Ny) (eye Nx Nx)) q q' = (if q = q' then 1 else 0)"
proof -
  have "q div Nx = q' div Nx \<and> q mod Nx = q' mod Nx \<longleftrightarrow> q = q'"
    by (metis div_mult_mod_eq)
  then show ?thesis
    by (auto simp: kron_def eye_def)
qed

lemma create_hamiltonian_symmetric:
  assumes "create_hamiltonian N dx = Inr H"
  shows "ent H r c = ent H c r"
  using assms by (auto simp: create_hamiltonian_eq)

section \<open>The diagonal update and the assembled matrix\<close>

lemma add_potential_body_Inr:
  assumes "i < nrows H" "i < ncols H" "i < length V"
  shows "add_potential_body V i H =
    Inr (H\<lparr>ent := (\<lambda>r c. if r = i \<and> c = i then ent H i i + V ! i else ent H r c)\<rparr>)"
  using assms by (simp add: add_potential_body_def mget_def mset_def getitem_def and_then_Inr)

lemma add_potential_loop:
  assumes "m \<le> nrows H" "m \<le> ncols H" "m \<le> length V"
  shows "for_loop [0..<m] (add_potential_body V) H =
    Inr (H\<lparr>ent := (\<lambda>r c. if r = c \<and> r < m then ent H r c + V ! r else ent H r c)\<rparr>)"
  using assms
proof (induction m)
  case 0
  then show ?case by simp
next
  case (Suc m)
  have "for_loop [0..<Suc m] (add_potential_body V) H =
        and_then (for_loop [0..<m] (add_potential_body V) H) (for_loop [m] (add_potential_body V))"
    by (simp add: for_loop_append)
  also have "\<dots> = for_loop [m] (add_potential_body V)
      (H\<lparr>ent := (\<lambda>r c. if r = c \<and> r < m then ent H r c + V ! r else ent H r c)\<rparr>)"
    using Suc by (simp add: and_then_Inr)
  also have "\<dots> = Inr (H\<lparr>ent := (\<lambda>r c. if r = c \<and> r < Suc m then ent H r c + V ! r else ent H r c)\<rparr>)"
    using Suc.prems by (auto simp: add_potential_body_Inr fun_eq_iff less_Suc_eq)
  finally show ?case .
qed

lemma add_potential_Inr:
  assumes "nrows H = M" "ncols H = M" "M \<le> length V"
  shows "add_potential M H V =
    Inr (H\<lparr>ent := (\<lambda>r c. if r = c \<and> r < M then ent H r c + V ! r else ent H r c)\<rparr>)"
  unfolding add_potential_def using assms by (intro add_potential_loop) simp_all

lemma kinetic3D_Inr:
  "\<exists>K. kinetic3D Nx dx Ny dy Nz dz = Inr K \<and> nrows K = Nx * Ny * Nz \<and> ncols K = Nx * Ny * Nz"
proof -
  obtain Hx Hy Hz where ch: "create_hamiltonian Nx dx = Inr Hx"
    "create_hamiltonian Ny dy = Inr Hy" "create_hamiltonian Nz dz = Inr Hz"
    by (simp add: create_hamiltonian_eq)
  from kinetic3D_entries [OF ch] show ?thesis by blast
qed

text \<open>An axis with fewer than two points: the step raises before anything else is done.\<close>

lemma hamiltonian3D_short_axis:
  assumes "Nx < 2 \<or> Ny < 2 \<or> Nz < 2"
  shows "hamiltonian3D xmin xmax Nx ymin ymax Ny zmin zmax Nz Vfun3D params = Inl IndexError"
  using assms
  by (auto simp: hamiltonian3D_def Let_def step_size_linspace and_then_Inl and_then_Inr)

lemma hamiltonian3D_valid:
  assumes "2 \<le> Nx" "2 \<le> Ny" "2 \<le> Nz"
    and V: "Vfun3D (linspace xmin xmax Nx) (linspace ymin ymax Ny) (linspace zmin zmax Nz) params = Inr V"
    and len: "Nx * Ny * Nz \<le> length V"
    and K: "kinetic3D Nx ((xmax - xmin) / real (Nx - 1)) Ny ((ymax - ymin) / real (Ny - 1))
              Nz ((zmax - zmin) / real (Nz - 1)) = Inr K"
  shows "hamiltonian3D xmin xmax Nx ymin ymax Ny zmin zmax Nz Vfun3D params =
    Inr (linspace xmin xmax Nx, linspace ymin ymax Ny, linspace zmin zmax Nz,
         K\<lparr>ent := (\<lambda>r c. if r = c \<and> r < Nx * Ny * Nz then ent K r c + V ! r else ent K r c)\<rparr>)"
proof -
  from kinetic3D_Inr [of Nx "(xmax - xmin) / real (Nx - 1)" Ny "(ymax - ymin) / real (Ny - 1)"
      Nz "(zmax - zmin) / real (Nz - 1)"] K
  have dims: "nrows K = Nx * Ny * Nz" "ncols K = Nx * Ny * Nz" by auto
  define dx where "dx = (xmax - xmin) / real (Nx - 1)"
  define dy where "dy = (ymax - ymin) / real (Ny - 1)"
  define dz where "dz = (zmax - zmin) / real (Nz - 1)"
  have steps: "step_size (linspace xmin xmax Nx) = Inr dx"
    "step_size (linspace ymin ymax Ny) = Inr dy" "step_size (linspace zmin zmax Nz) = Inr dz"
    using assms(1-3) by (simp_all add: step_size_linspace dx_def dy_def dz_def)
  have K': "kinetic3D Nx dx Ny dy Nz dz = Inr K"
    using K by (simp only: dx_def dy_def dz_def)
  show ?thesis
    by (simp only: hamiltonian3D_def Let_def steps and_then_Inr V K'
        add_potential_Inr [OF dims len])
qed

lemma hamiltonian3D_grids:
  assumes "hamiltonian3D xmin xmax Nx ymin ymax Ny zmin zmax Nz Vfun3D params = Inr (x, y, z, H)"
  shows "x = linspace xmin xmax Nx \<and> y = linspace ymin ymax Ny \<and> z = linspace zmin zmax Nz"
  using assms
  by (auto simp: hamiltonian3D_def Let_def and_then_def split: sum.splits)

section \<open>The whole call\<close>

lemma schrodinger3D_short_axis:
  assumes "Nx < 2 \<or> Ny < 2 \<or> Nz < 2"
  shows "schrodinger3D eigs xmin xmax Nx ymin ymax Ny zmin zmax Nz Vfun3D params neigs E0 findpsi =
         Inl IndexError"
  by (simp add: schrodinger3D_def hamiltonian3D_short_axis [OF assms] and_then_Inl)

lemma schrodinger3D_valid:
  assumes "2 \<le> Nx" "2 \<le> Ny" "2 \<le> Nz"
    and V: "Vfun3D (linspace xmin xmax Nx) (linspace ymin ymax Ny) (linspace zmin zmax Nz) params = Inr V"
    and len: "Nx * Ny * Nz \<le> length V"
  shows "\<exists>H. hamiltonian3D xmin xmax Nx ymin ymax Ny zmin zmax Nz Vfun3D params =
            Inr (linspace xmin xmax Nx, linspace ymin ymax Ny, linspace zmin zmax Nz, H) \<and>
          nrows H = Nx * Ny * Nz \<and> ncols H = Nx * Ny * Nz \<and>
          schrodinger3D eigs xmin xmax Nx ymin ymax Ny zmin zmax Nz Vfun3D params neigs E0 findpsi =
            and_then (eigs H neigs E0) (\<lambda>(evl, evt).
              if findpsi = False then Inr (Eigenvalues evl)
              else Inr (Eigenpairs evl evt (linspace xmin xmax Nx) (linspace ymin ymax Ny)
                         (linspace zmin zmax Nz)))"
proof -
  obtain K where K: "kinetic3D Nx ((xmax - xmin) / real (Nx - 1)) Ny ((ymax - ymin) / real (Ny - 1))
              Nz ((zmax - zmin) / real (Nz - 1)) = Inr K"
    and dims: "nrows K = Nx * Ny * Nz" "ncols K = Nx * Ny * Nz"
    using kinetic3D_Inr by blast
  note H = hamiltonian3D_valid [where Vfun3D = Vfun3D and params = params and xmin = xmin
      and xmax = xmax and ymin = ymin and ymax = ymax and zmin = zmin and zmax = zmax,
      OF assms(1-3) V len K]
  show ?thesis
    by (rule exI [where x = "K\<lparr>ent := (\<lambda>r c. if r = c \<and> r < Nx * Ny * Nz then ent K r c + V ! r else ent K r c)\<rparr>"])
       (simp add: H dims schrodinger3D_def and_then_Inr)
qed

section \<open>The sampled potential\<close>

text \<open>
  A loop that writes one block of \<open>w\<close> cells per round, starting at \<open>vindex\<close>, has
  written \<open>m\<close> blocks after \<open>m\<close> rounds and left the other cells alone.
\<close>

lemma fill_loop:
  fixes body :: "nat \<Rightarrow> 'a list \<times> nat \<Rightarrow> error + 'a list \<times> nat"
  assumes step: "\<And>i V vi. i < n \<Longrightarrow> vi + w \<le> length V \<Longrightarrow>
      body i (V, vi) =
      Inr (map (\<lambda>q. if vi \<le> q \<and> q < vi + w then g i (q - vi) else V ! q) [0..<length V], vi + w)"
    and "m \<le> n" "vi + m * w \<le> length V"
  shows "for_loop [0..<m] body (V, vi) =
      Inr (map (\<lambda>q. if vi \<le> q \<and> q < vi + m * w then g ((q - vi) div w) ((q - vi) mod w) else V ! q)
             [0..<length V], vi + m * w)"
  using assms(2,3)
proof (induction m)
  case 0
  then show ?case by (auto intro!: nth_equalityI)
next
  case (Suc m)
  let ?F = "\<lambda>m q. if vi \<le> q \<and> q < vi + m * w then g ((q - vi) div w) ((q - vi) mod w) else V ! q"
  let ?Vm = "map (?F m) [0..<length V]"
  have room: "(vi + m * w) + w \<le> length ?Vm" using Suc.prems by (simp add: algebra_simps)
  have "for_loop [0..<Suc m] body (V, vi) =
        and_then (for_loop [0..<m] body (V, vi)) (for_loop [m] body)"
    by (simp add: for_loop_append)
  also have "\<dots> = for_loop [m] body (?Vm, vi + m * w)"
    using Suc by (simp add: and_then_Inr)
  also have "\<dots> = Inr (map (\<lambda>q. if vi + m * w \<le> q \<and> q < vi + m * w + w
                                  then g m (q - (vi + m * w)) else ?Vm ! q) [0..<length ?Vm],
                       vi + m * w + w)"
    using step [where i = m and V = ?Vm and vi = "vi + m * w"] room Suc.prems(1) by simp
  also have "\<dots> = Inr (map (?F (Suc m)) [0..<length V], vi + Suc m * w)"
  proof -
    have pointwise: "(if vi + m * w \<le> q \<and> q < vi + m * w + w then g m (q - (vi + m * w)) else ?Vm ! q)
          = ?F (Suc m) q" if "q < length V" for q
    proof (cases "vi + m * w \<le> q \<and> q < vi + m * w + w")
      case True
      define r where "r = q - (vi + m * w)"
      have r: "q - vi = r + m * w" "r < w"
        using True unfolding r_def by arith+
      have "(q - vi) div w = m" "(q - vi) mod w = r"
        using r by simp_all
      moreover have "vi \<le> q \<and> q < vi + Suc m * w"
        using True by simp
      ultimately show ?thesis using True by (simp add: r_def)
    next
      case False
      have nth: "?Vm ! q = ?F m q"
        using that by simp
      have "(vi \<le> q \<and> q < vi + Suc m * w) = (vi \<le> q \<and> q < vi + m * w)"
        using False by auto
      then show ?thesis
        using False nth by presburger
    qed
    have len: "length ?Vm = length V" by simp
    have "map (\<lambda>q. if vi + m * w \<le> q \<and> q < vi + m * w + w
                                  then g m (q - (vi + m * w)) else ?Vm ! q) [0..<length V]
        = map (?F (Suc m)) [0..<length V]"
    proof (rule map_cong [OF refl])
      fix q assume "q \<in> set [0..<length V]"
      then have "q < length V" by simp
      then show "(if vi + m * w \<le> q \<and> q < vi + m * w + w then g m (q - (vi + m * w)) else ?Vm ! q)
          = ?F (Suc m) q"
        by (rule pointwise)
    qed
    moreover have "vi + m * w + w = vi + Suc m * w" by simp
    ultimately show ?thesis by (simp only: len)
  qed
  finally show ?case .
qed

lemma Vfun_body_Inr:
  assumes "i < length X" "j < length Y" "k < length Z" "vi + 1 \<le> length V"
  shows "Vfun_body X Y Z [p0, p1, p2] i j k (V, vi) =
    Inr (map (\<lambda>q. if vi \<le> q \<and> q < vi + 1
                    then p0 * (X ! i) ^ 2 + p1 * (Y ! j) ^ 2 + p2 * (Z ! k) ^ 2 else V ! q)
           [0..<length V], vi + 1)"
proof -
  have "V[vi := v] = map (\<lambda>q. if vi \<le> q \<and> q < vi + 1 then v else V ! q) [0..<length V]" for v
    by (rule nth_equalityI) (auto simp: nth_list_update)
  then show ?thesis
    using assms
    by (simp add: Vfun_body_def getitem_def setitem_def and_then_Inr)
qed

lemma Vfun_eq:
  "Vfun X Y Z [p0, p1, p2] =
     Inr (map (\<lambda>q. p0 * (X ! (q div (length Y * length Z))) ^ 2 +
                    p1 * (Y ! (q div length Z mod length Y)) ^ 2 +
                    p2 * (Z ! (q mod length Z)) ^ 2)
            [0..<length X * length Y * length Z])"
proof -
  let ?P = "\<lambda>i j k. p0 * (X ! i) ^ 2 + p1 * (Y ! j) ^ 2 + p2 * (Z ! k) ^ 2"
  let ?Nx = "length X" and ?Ny = "length Y" and ?Nz = "length Z"
  have inner: "for_loop [0..<?Nz] (Vfun_body X Y Z [p0, p1, p2] i j) (V, vi) =
      Inr (map (\<lambda>q. if vi \<le> q \<and> q < vi + ?Nz then ?P i j (q - vi) else V ! q) [0..<length V],
           vi + ?Nz)"
    if "i < ?Nx" "j < ?Ny" "vi + ?Nz \<le> length V" for i j V vi
    using fill_loop [where body = "Vfun_body X Y Z [p0, p1, p2] i j" and n = ?Nz and m = ?Nz
        and w = 1 and g = "\<lambda>k r. ?P i j k" and V = V and vi = vi]
      Vfun_body_Inr [of i X j Y _ Z _ _ p0 p1 p2] that
    by simp
  have middle: "for_loop [0..<?Ny] (\<lambda>j. for_loop [0..<?Nz] (Vfun_body X Y Z [p0, p1, p2] i j)) (V, vi) =
      Inr (map (\<lambda>q. if vi \<le> q \<and> q < vi + ?Ny * ?Nz
                      then ?P i ((q - vi) div ?Nz) ((q - vi) mod ?Nz) else V ! q) [0..<length V],
           vi + ?Ny * ?Nz)"
    if "i < ?Nx" "vi + ?Ny * ?Nz \<le> length V" for i V vi
    using fill_loop [where body = "\<lambda>j. for_loop [0..<?Nz] (Vfun_body X Y Z [p0, p1, p2] i j)"
        and n = ?Ny and m = ?Ny and w = ?Nz and g = "\<lambda>j r. ?P i j r" and V = V and vi = vi]
      inner [of i] that
    by simp
  have outer: "for_loop [0..<?Nx] (\<lambda>i. for_loop [0..<?Ny] (\<lambda>j.
        for_loop [0..<?Nz] (Vfun_body X Y Z [p0, p1, p2] i j))) (V, 0) =
      Inr (map (\<lambda>q. if 0 \<le> q \<and> q < 0 + ?Nx * (?Ny * ?Nz)
                      then ?P ((q - 0) div (?Ny * ?Nz)) ((q - 0) mod (?Ny * ?Nz) div ?Nz)
                             ((q - 0) mod (?Ny * ?Nz) mod ?Nz) else V ! q) [0..<length V],
           0 + ?Nx * (?Ny * ?Nz))"
    if "?Nx * (?Ny * ?Nz) \<le> length V" for V
    using fill_loop [where body = "\<lambda>i. for_loop [0..<?Ny] (\<lambda>j. for_loop [0..<?Nz] (Vfun_body X Y Z [p0, p1, p2] i j))"
        and n = ?Nx and m = ?Nx and w = "?Ny * ?Nz" and g = "\<lambda>i r. ?P i (r div ?Nz) (r mod ?Nz)"
        and V = V and vi = 0]
      middle that
    by simp
  show ?thesis
    unfolding Vfun_def Let_def
    by (subst outer) (simp_all add: and_then_Inr mod_mult_div_nat mod_mult_mod_nat mult.assoc)
qed

lemma Vfun_reversed_eq:
  "Vfun_reversed X Y Z [p0, p1, p2] =
     Inr (map (\<lambda>q. p0 * (X ! (q mod length X)) ^ 2 +
                    p1 * (Y ! (q div length X mod length Y)) ^ 2 +
                    p2 * (Z ! (q div (length Y * length X))) ^ 2)
            [0..<length X * length Y * length Z])"
proof -
  let ?P = "\<lambda>i j k. p0 * (X ! i) ^ 2 + p1 * (Y ! j) ^ 2 + p2 * (Z ! k) ^ 2"
  let ?Nx = "length X" and ?Ny = "length Y" and ?Nz = "length Z"
  have inner: "for_loop [0..<?Nx] (\<lambda>i. Vfun_body X Y Z [p0, p1, p2] i j k) (V, vi) =
      Inr (map (\<lambda>q. if vi \<le> q \<and> q < vi + ?Nx then ?P (q - vi) j k else V ! q) [0..<length V],
           vi + ?Nx)"
    if "j < ?Ny" "k < ?Nz" "vi + ?Nx \<le> length V" for j k V vi
    using fill_loop [where body = "\<lambda>i. Vfun_body X Y Z [p0, p1, p2] i j k" and n = ?Nx and m = ?Nx
        and w = 1 and g = "\<lambda>i r. ?P i j k" and V = V and vi = vi]
      Vfun_body_Inr [of _ X j Y k Z _ _ p0 p1 p2] that
    by simp
  have middle: "for_loop [0..<?Ny] (\<lambda>j. for_loop [0..<?Nx] (\<lambda>i. Vfun_body X Y Z [p0, p1, p2] i j k)) (V, vi) =
      Inr (map (\<lambda>q. if vi \<le> q \<and> q < vi + ?Ny * ?Nx
                      then ?P ((q - vi) mod ?Nx) ((q - vi) div ?Nx) k else V ! q) [0..<length V],
           vi + ?Ny * ?Nx)"
    if "k < ?Nz" "vi + ?Ny * ?Nx \<le> length V" for k V vi
    using fill_loop [where body = "\<lambda>j. for_loop [0..<?Nx] (\<lambda>i. Vfun_body X Y Z [p0, p1, p2] i j k)"
        and n = ?Ny and m = ?Ny and w = ?Nx and g = "\<lambda>j r. ?P r j k" and V = V and vi = vi]
      inner [of _ k] that
    by simp
  have outer: "for_loop [0..<?Nz] (\<lambda>k. for_loop [0..<?Ny] (\<lambda>j.
        for_loop [0..<?Nx] (\<lambda>i. Vfun_body X Y Z [p0, p1, p2] i j k))) (V, 0) =
      Inr (map (\<lambda>q. if 0 \<le> q \<and> q < 0 + ?Nz * (?Ny * ?Nx)
                      then ?P ((q - 0) mod (?Ny * ?Nx) mod ?Nx) ((q - 0) mod (?Ny * ?Nx) div ?Nx)
                             ((q - 0) div (?Ny * ?Nx)) else V ! q) [0..<length V],
           0 + ?Nz * (?Ny * ?Nx))"
    if "?Nz * (?Ny * ?Nx) \<le> length V" for V
    using fill_loop [where body = "\<lambda>k. for_loop [0..<?Ny] (\<lambda>j. for_loop [0..<?Nx] (\<lambda>i. Vfun_body X Y Z [p0, p1, p2] i j k))"
        and n = ?Nz and m = ?Nz and w = "?Ny * ?Nx" and g = "\<lambda>k r. ?P (r mod ?Nx) (r div ?Nx) k"
        and V = V and vi = 0]
      middle that
    by simp
  have M: "?Nx * ?Ny * ?Nz = ?Nz * (?Ny * ?Nx)" by (simp add: mult.commute)
  show ?thesis
    unfolding Vfun_reversed_def Let_def M
    by (subst outer) (simp_all add: and_then_Inr mod_mult_div_nat mod_mult_mod_nat)
qed

lemma Vfun_length:
  "\<exists>V. Vfun X Y Z [p0, p1, p2] = Inr V \<and> length V = length X * length Y * length Z"
  by (simp add: Vfun_eq)

text \<open>The kinetic operator of a grid with steps 1, 2 and 3 along \<open>x\<close>, \<open>y\<close> and \<open>z\<close>.\<close>

lemma kinetic3D_example:
  "\<exists>K. kinetic3D 2 1 2 2 3 3 = Inr K \<and> nrows K = 12 \<and> ncols K = 12 \<and>
        ent K 0 1 = - 1 \<and> ent K 0 2 = - 1 / 4 \<and> ent K 0 4 = - 1 / 9 \<and> ent K 1 1 = 49 / 18"
proof -
  obtain Hx Hy Hz where ch: "create_hamiltonian 2 1 = Inr Hx"
    "create_hamiltonian 2 2 = Inr Hy" "create_hamiltonian 3 3 = Inr Hz"
    by (simp add: create_hamiltonian_eq)
  from kinetic3D_entries [OF ch] obtain K where K: "kinetic3D 2 1 2 2 3 3 = Inr K"
    "nrows K = 2 * 2 * 3" "ncols K = 2 * 2 * 3"
    and entries: "\<And>r c. ent K r c =
       (if r div (2 * 2) = c div (2 * 2) \<and> (r div 2) mod 2 = (c div 2) mod 2
        then ent Hx (r mod 2) (c mod 2) else 0) +
       (if r div (2 * 2) = c div (2 * 2) \<and> r mod 2 = c mod 2
        then ent Hy ((r div 2) mod 2) ((c div 2) mod 2) else 0) +
       (if (r div 2) mod 2 = (c div 2) mod 2 \<and> r mod 2 = c mod 2
        then ent Hz (r div (2 * 2)) (c div (2 * 2)) else 0)"
    by blast
  have "ent K 0 1 = - 1" "ent K 0 2 = - 1 / 4" "ent K 0 4 = - 1 / 9" "ent K 1 1 = 49 / 18"
    using ch by (auto simp: entries create_hamiltonian_eq power2_eq_square)
  with K show ?thesis by simp
qed

section \<open>The transform pair\<close>

lemma dot_sum:
  assumes "length ys = length xs"
  shows "dot xs ys = (\<Sum>k<length xs. xs ! k * ys ! k)"
proof -
  have "zip xs ys = map (\<lambda>k. (xs ! k, ys ! k)) [0..<length xs]"
    using assms by (intro nth_equalityI) simp_all
  then have "dot xs ys = sum_list (map (\<lambda>k. xs ! k * ys ! k) [0..<length xs])"
    by (simp add: dot_def comp_def)
  also have "\<dots> = (\<Sum>k<length xs. xs ! k * ys ! k)"
    by (simp add: interv_sum_list_conv_sum_set_nat atLeast0LessThan)
  finally show ?thesis .
qed

lemma exp_to_cis: "exp (\<i> * 2 * of_real pi * of_nat k * of_nat n / of_nat N) = cis (2 * pi * real k * real n / real N)"
proof -
  have "\<i> * 2 * of_real pi * of_nat k * of_nat n / of_nat N = \<i> * complex_of_real (2 * pi * real k * real n / real N)"
    by simp
  then show ?thesis by (simp only: cis_conv_exp)
qed

lemma exp_to_cis_minus: "exp (- (\<i> * 2 * of_real pi * of_nat k * of_nat n / of_nat N)) = cis (- (2 * pi * real k * real n / real N))"
proof -
  have "- (\<i> * 2 * of_real pi * of_nat k * of_nat n / of_nat N) = \<i> * complex_of_real (- (2 * pi * real k * real n / real N))"
    by simp
  then show ?thesis by (simp only: cis_conv_exp)
qed

lemma length_dft: "length (dft X) = length X"
  by (simp add: dft_def Let_def)

lemma length_idft: "length (idft X) = length X"
  by (simp add: idft_def Let_def)

lemma dft_nth:
  assumes "n < length X"
  shows "dft X ! n = (\<Sum>k<length X. X ! k * cis (2 * pi * real k * real n / real (length X)))"
  using assms by (simp add: dft_def Let_def dot_sum exp_to_cis)

lemma idft_nth:
  assumes "n < length X"
  shows "idft X ! n =
    (\<Sum>k<length X. X ! k * cis (- (2 * pi * real k * real n / real (length X)))) / of_nat (length X)"
  using assms by (simp add: idft_def Let_def dot_sum exp_to_cis_minus)

text \<open>The \<open>N\<close>-th roots of unity sum to zero unless the exponent vanishes.\<close>

lemma cis_sum:
  assumes "j < N" "m < N"
  shows "(\<Sum>k<N. cis (2 * pi * real j * real k / real N) * cis (- (2 * pi * real k * real m / real N)))
         = (if j = m then of_nat N else 0)"
proof (cases "j = m")
  case True
  then show ?thesis by (simp add: cis_mult mult.commute)
next
  case False
  have Npos: "0 < N" using assms by simp
  define d where "d = real_of_int (int j - int m)"
  define z where "z = cis (2 * pi * d / real N)"
  have summand: "cis (2 * pi * real j * real k / real N) * cis (- (2 * pi * real k * real m / real N)) = z ^ k" for k
  proof -
    have "2 * pi * real j * real k / real N + - (2 * pi * real k * real m / real N)
          = real k * (2 * pi * d / real N)"
      by (simp add: d_def algebra_simps diff_divide_distrib)
    then show ?thesis by (simp only: cis_mult z_def DeMoivre)
  qed
  have zN: "z ^ N = 1"
  proof -
    have "real N * (2 * pi * d / real N) = 2 * pi * d" using Npos by simp
    then have "z ^ N = cis (2 * pi * d)" by (simp only: z_def DeMoivre)
    also have "\<dots> = 1" by (rule cis_multiple_2pi) (simp add: d_def)
    finally show ?thesis .
  qed
  have z1: "z \<noteq> 1"
  proof
    assume "z = 1"
    then have "cos (2 * pi * d / real N) = 1"
      by (simp add: z_def complex_eq_iff)
    then obtain i :: int where i: "2 * pi * d / real N = real_of_int i * 2 * pi"
      using cos_one_2pi_int by blast
    then have "d = real_of_int i * real N" using Npos by (simp add: field_simps)
    then have "real_of_int (int j - int m) = real_of_int (i * int N)" by (simp add: d_def)
    then have eq: "int j - int m = i * int N" by (simp only: of_int_eq_iff)
    have "\<bar>int j - int m\<bar> < int N" using assms by simp
    with eq have "\<bar>i\<bar> * int N < 1 * int N" by (simp add: abs_mult)
    then have "\<bar>i\<bar> < 1" using Npos by simp
    then have "i = 0" by simp
    with eq False show False by simp
  qed
  have "(\<Sum>k<N. z ^ k) = (z ^ N - 1) / (z - 1)"
    using z1 by (rule geometric_sum)
  with zN have "(\<Sum>k<N. z ^ k) = 0" by simp
  with False show ?thesis by (simp add: summand)
qed

lemma idft_dft: "idft (dft X) = X"
proof (rule nth_equalityI)
  show "length (idft (dft X)) = length X"
    by (simp add: length_idft length_dft)
next
  fix m assume "m < length (idft (dft X))"
  then have m: "m < length X" by (simp add: length_idft length_dft)
  let ?N = "length X"
  have Npos: "0 < ?N" using m by auto
  have "idft (dft X) ! m =
      (\<Sum>k<?N. dft X ! k * cis (- (2 * pi * real k * real m / real ?N))) / of_nat ?N"
    using m by (simp add: idft_nth length_dft)
  also have "(\<Sum>k<?N. dft X ! k * cis (- (2 * pi * real k * real m / real ?N)))
      = (\<Sum>k<?N. \<Sum>j<?N. X ! j * (cis (2 * pi * real j * real k / real ?N) *
                                      cis (- (2 * pi * real k * real m / real ?N))))"
    by (rule sum.cong) (simp_all add: dft_nth sum_distrib_right mult.assoc)
  also have "\<dots> = (\<Sum>j<?N. \<Sum>k<?N. X ! j * (cis (2 * pi * real j * real k / real ?N) *
                                      cis (- (2 * pi * real k * real m / real ?N))))"
    by (rule sum.swap)
  also have "\<dots> = (\<Sum>j<?N. X ! j * (if j = m then of_nat ?N else 0))"
    by (rule sum.cong) (simp_all add: sum_distrib_left [symmetric] cis_sum m)
  also have "\<dots> = (\<Sum>j<?N. if j = m then X ! j * of_nat ?N else 0)"
    by (rule sum.cong) simp_all
  also have "\<dots> = X ! m * of_nat ?N"
    using m by (simp add: sum.delta)
  finally show "idft (dft X) ! m = X ! m"
    using Npos by simp
qed

lemma cis_sum_conj:
  assumes "j < N" "m < N"
  shows "(\<Sum>k<N. cis (- (2 * pi * real j * real k / real N)) * cis (2 * pi * real k * real m / real N))
         = (if j = m then of_nat N else 0)"
proof -
  have "(\<Sum>k<N. cis (- (2 * pi * real j * real k / real N)) * cis (2 * pi * real k * real m / real N))
      = (\<Sum>k<N. cis (2 * pi * real m * real k / real N) * cis (- (2 * pi * real k * real j / real N)))"
    by (rule sum.cong) (simp_all add: mult.commute mult.left_commute)
  also have "\<dots> = (if m = j then of_nat N else 0)"
    using assms by (intro cis_sum)
  finally show ?thesis by (simp add: eq_commute)
qed

lemma dft_idft: "dft (idft X) = X"
proof (rule nth_equalityI)
  show "length (dft (idft X)) = length X"
    by (simp add: length_idft length_dft)
next
  fix m assume "m < length (dft (idft X))"
  then have m: "m < length X" by (simp add: length_idft length_dft)
  let ?N = "length X"
  have Npos: "0 < ?N" using m by auto
  have "dft (idft X) ! m =
      (\<Sum>k<?N. idft X ! k * cis (2 * pi * real k * real m / real ?N))"
    using m by (simp add: dft_nth length_idft)
  also have "\<dots> = (\<Sum>k<?N. \<Sum>j<?N. X ! j * (cis (- (2 * pi * real j * real k / real ?N)) *
                                      cis (2 * pi * real k * real m / real ?N)) / of_nat ?N)"
    by (rule sum.cong)
       (simp_all add: idft_nth sum_distrib_right sum_divide_distrib mult.assoc divide_simps)
  also have "\<dots> = (\<Sum>j<?N. \<Sum>k<?N. X ! j * (cis (- (2 * pi * real j * real k / real ?N)) *
                                      cis (2 * pi * real k * real m / real ?N)) / of_nat ?N)"
    by (rule sum.swap)
  also have "\<dots> = (\<Sum>j<?N. X ! j * (if j = m then of_nat ?N else 0) / of_nat ?N)"
    by (rule sum.cong)
       (simp_all add: sum_distrib_left [symmetric] sum_divide_distrib [symmetric] cis_sum_conj m)
  also have "\<dots> = (\<Sum>j<?N. if j = m then X ! j else 0)"
    using Npos by (intro sum.cong) simp_all
  also have "\<dots> = X ! m"
    using m by (simp add: sum.delta)
  finally show "dft (idft X) ! m = X ! m" .
qed

section \<open>Claims\<close>

subsection \<open>C1: the order of the potential vector\<close>

text \<open>
  C1 asks that \<open>V[i]\<close> is the potential of the grid point whose basis vector has the
  flat index \<open>i\<close> in the Kronecker-built operator. The call
  \<open>sho_eigenenergies(xmin=0, xmax=1, Nx=2, ymin=0, ymax=2, Ny=2, zmin=0, zmax=6, Nz=3)\<close>
  has the grids \<open>x = [0, 1]\<close>, \<open>y = [0, 2]\<close>, \<open>z = [0, 3, 6]\<close> and the steps 1, 2, 3.
  In the assembled matrix the index 0 is coupled to the index 1 by \<open>-1/dx\<^sup>2\<close>, to 2 by
  \<open>-1/dy\<^sup>2\<close> and to 4 by \<open>-1/dz\<^sup>2\<close>: the index 1 is the grid point
  \<open>(x[1], y[0], z[0])\<close>, whose potential (\<open>Vfun\<close> on that one point) is 1. But
  \<open>V[1]\<close> is 9, the potential of \<open>(x[0], y[0], z[1])\<close>, and the diagonal entry at
  the index 1 is the kinetic \<open>49/18\<close> plus 9: \<open>Vfun\<close> counts \<open>z\<close> fastest, the
  operator counts \<open>x\<close> fastest.
\<close>

theorem Vfun_flattening_mismatch:
  "and_then (hamiltonian3D 0 1 2 0 2 2 0 6 3 Vfun [1, 1, 1]) (\<lambda>(x, y, z, H). mget H 0 1) = Inr (- 1) \<and>
   and_then (hamiltonian3D 0 1 2 0 2 2 0 6 3 Vfun [1, 1, 1]) (\<lambda>(x, y, z, H). mget H 0 2) = Inr (- 1 / 4) \<and>
   and_then (hamiltonian3D 0 1 2 0 2 2 0 6 3 Vfun [1, 1, 1]) (\<lambda>(x, y, z, H). mget H 0 4) = Inr (- 1 / 9) \<and>
   and_then (kinetic3D 2 1 2 2 3 3) (\<lambda>K. mget K 1 1) = Inr (49 / 18) \<and>
   Vfun [linspace 0 1 2 ! 1] [linspace 0 2 2 ! 0] [linspace 0 6 3 ! 0] [1, 1, 1] = Inr [1] \<and>
   and_then (Vfun (linspace 0 1 2) (linspace 0 2 2) (linspace 0 6 3) [1, 1, 1]) (\<lambda>V. getitem V 1) = Inr 9 \<and>
   and_then (hamiltonian3D 0 1 2 0 2 2 0 6 3 Vfun [1, 1, 1]) (\<lambda>(x, y, z, H). mget H 1 1) = Inr (49 / 18 + 9)"
proof -
  obtain K where K: "kinetic3D 2 1 2 2 3 3 = Inr K" "nrows K = 12" "ncols K = 12"
    and e: "ent K 0 1 = - 1" "ent K 0 2 = - 1 / 4" "ent K 0 4 = - 1 / 9" "ent K 1 1 = 49 / 18"
    using kinetic3D_example by blast
  let ?x = "linspace 0 1 2" and ?y = "linspace 0 2 2" and ?z = "linspace 0 6 3"
  obtain V where V: "Vfun ?x ?y ?z [1, 1, 1] = Inr V" "length V = 12" "V ! 1 = 9"
    by (simp add: Vfun_eq length_linspace linspace_nth)
  have H: "hamiltonian3D 0 1 2 0 2 2 0 6 3 Vfun [1, 1, 1] =
    Inr (?x, ?y, ?z, K\<lparr>ent := (\<lambda>r c. if r = c \<and> r < 2 * 2 * 3 then ent K r c + V ! r else ent K r c)\<rparr>)"
    using hamiltonian3D_valid [where xmin = 0 and xmax = 1 and Nx = 2 and ymin = 0 and ymax = 2
        and Ny = 2 and zmin = 0 and zmax = 6 and Nz = 3 and Vfun3D = Vfun and params = "[1, 1, 1]"
        and V = V and K = K] V K(1)
    by simp
  have pot: "Vfun [?x ! 1] [?y ! 0] [?z ! 0] [1, 1, 1] = Inr [1]"
    by (simp add: Vfun_eq linspace_nth)
  show ?thesis
    unfolding H K(1) pot V(1)
    using e V(2,3) K(2,3) by (simp add: and_then_Inr mget_def getitem_def)
qed

subsection \<open>C2: invalid configurations\<close>

text \<open>
  C2 asks for a failure before the matrix is assembled and before the eigensolver is
  invoked when \<open>neigs\<close> exceeds \<open>Nx * Ny * Nz\<close>. With two points on each axis and
  \<open>neigs = 9 > 8\<close> the call reaches the eigensolver: it returns what an eigensolver that
  accepts the request returns, and when the eigensolver rejects a count above the size of
  the matrix it was handed, the failure is the eigensolver's.
\<close>

theorem schrodinger3D_neigs_counterexample:
  "schrodinger3D (\<lambda>H k sigma. Inr ([], [])) 0 1 2 0 1 2 0 1 2 Vfun [1, 1, 1] 9 0 False =
     Inr (Eigenvalues []) \<and>
   schrodinger3D (\<lambda>H k sigma. if nrows H < k then Inl SolverError else Inr ([], []))
       0 1 2 0 1 2 0 1 2 Vfun [1, 1, 1] 9 0 False = Inl SolverError"
proof -
  obtain V where V: "Vfun (linspace 0 1 2) (linspace 0 1 2) (linspace 0 1 2) [1, 1, 1] = Inr V"
    "length V = 2 * 2 * 2"
    using Vfun_length [of "linspace 0 1 2" "linspace 0 1 2" "linspace 0 1 2" 1 1 1]
    by (auto simp: length_linspace)
  have len: "2 * 2 * 2 \<le> length V" using V(2) by simp
  have two: "(2::nat) \<le> 2" by simp
  note run = schrodinger3D_valid [where Vfun3D = Vfun and params = "[1, 1, 1]" and xmin = 0
      and xmax = 1 and ymin = 0 and ymax = 1 and zmin = 0 and zmax = 1 and neigs = 9 and ?E0.0 = 0
      and findpsi = False, OF two two two V(1) len]
  from run [where eigs = "\<lambda>H k sigma. Inr ([], [])"]
  have accepted: "schrodinger3D (\<lambda>H k sigma. Inr ([], [])) 0 1 2 0 1 2 0 1 2 Vfun [1, 1, 1] 9 0 False =
     Inr (Eigenvalues [])"
    by (auto simp: and_then_Inr)
  from run [where eigs = "\<lambda>H k sigma. if nrows H < k then Inl SolverError else Inr ([], [])"]
  have rejected: "schrodinger3D (\<lambda>H k sigma. if nrows H < k then Inl SolverError else Inr ([], []))
       0 1 2 0 1 2 0 1 2 Vfun [1, 1, 1] 9 0 False = Inl SolverError"
    by (auto simp: and_then_Inl)
  from accepted rejected show ?thesis by (rule conjI)
qed

text \<open>
  C2 (amended): if an axis has fewer than 2 points, the call fails with the IndexError of
  \<open>x[1] - x[0]\<close>, whatever the potential function and the eigensolver are, so before
  either is called and before the matrix is assembled. \<open>neigs\<close> is not checked: when
  every axis has at least 2 points and the potential function returns at least
  \<open>Nx * Ny * Nz\<close> values, the matrix of that size is assembled and handed to the
  eigensolver with \<open>neigs\<close> and \<open>E0\<close>, and the outcome of the call is the outcome of the
  eigensolver, for every \<open>neigs\<close>.
\<close>

theorem schrodinger3D_invalid_configuration:
  "(Nx < 2 \<or> Ny < 2 \<or> Nz < 2 \<longrightarrow>
      schrodinger3D eigs xmin xmax Nx ymin ymax Ny zmin zmax Nz Vfun3D params neigs E0 findpsi =
      Inl IndexError) \<and>
   (2 \<le> Nx \<and> 2 \<le> Ny \<and> 2 \<le> Nz \<and>
    Vfun3D (linspace xmin xmax Nx) (linspace ymin ymax Ny) (linspace zmin zmax Nz) params = Inr V \<and>
    Nx * Ny * Nz \<le> length V \<longrightarrow>
      (\<exists>H. hamiltonian3D xmin xmax Nx ymin ymax Ny zmin zmax Nz Vfun3D params =
            Inr (linspace xmin xmax Nx, linspace ymin ymax Ny, linspace zmin zmax Nz, H) \<and>
          nrows H = Nx * Ny * Nz \<and> ncols H = Nx * Ny * Nz \<and>
          schrodinger3D eigs xmin xmax Nx ymin ymax Ny zmin zmax Nz Vfun3D params neigs E0 findpsi =
            and_then (eigs H neigs E0) (\<lambda>(evl, evt).
              if findpsi = False then Inr (Eigenvalues evl)
              else Inr (Eigenpairs evl evt (linspace xmin xmax Nx) (linspace ymin ymax Ny)
                         (linspace zmin zmax Nz)))))"
proof (intro conjI impI)
  assume "Nx < 2 \<or> Ny < 2 \<or> Nz < 2"
  then show "schrodinger3D eigs xmin xmax Nx ymin ymax Ny zmin zmax Nz Vfun3D params neigs E0 findpsi =
      Inl IndexError"
    by (rule schrodinger3D_short_axis)
next
  assume a: "2 \<le> Nx \<and> 2 \<le> Ny \<and> 2 \<le> Nz \<and>
    Vfun3D (linspace xmin xmax Nx) (linspace ymin ymax Ny) (linspace zmin zmax Nz) params = Inr V \<and>
    Nx * Ny * Nz \<le> length V"
  show "\<exists>H. hamiltonian3D xmin xmax Nx ymin ymax Ny zmin zmax Nz Vfun3D params =
            Inr (linspace xmin xmax Nx, linspace ymin ymax Ny, linspace zmin zmax Nz, H) \<and>
          nrows H = Nx * Ny * Nz \<and> ncols H = Nx * Ny * Nz \<and>
          schrodinger3D eigs xmin xmax Nx ymin ymax Ny zmin zmax Nz Vfun3D params neigs E0 findpsi =
            and_then (eigs H neigs E0) (\<lambda>(evl, evt).
              if findpsi = False then Inr (Eigenvalues evl)
              else Inr (Eigenpairs evl evt (linspace xmin xmax Nx) (linspace ymin ymax Ny)
                         (linspace zmin zmax Nz)))"
    using a
    by (intro schrodinger3D_valid [where Vfun3D = Vfun3D and params = params and V = V]) simp_all
qed

theorem schrodinger3D_invalid_configuration_witness:
  "schrodinger3D (\<lambda>H k sigma. Inr ([], [])) 0 1 1 0 1 2 0 1 2 Vfun [1, 1, 1] 1 0 False =
     Inl IndexError \<and>
   (\<exists>H. hamiltonian3D 0 1 2 0 1 2 0 1 2 Vfun [1, 1, 1] =
           Inr (linspace 0 1 2, linspace 0 1 2, linspace 0 1 2, H) \<and>
        nrows H = 8 \<and> ncols H = 8 \<and>
        schrodinger3D (\<lambda>H k sigma. Inr ([2 + k], [])) 0 1 2 0 1 2 0 1 2 Vfun [1, 1, 1] 9 0 False =
          Inr (Eigenvalues [11]))"
proof -
  obtain V where V: "Vfun (linspace 0 1 2) (linspace 0 1 2) (linspace 0 1 2) [1, 1, 1] = Inr V"
    "length V = 2 * 2 * 2"
    using Vfun_length [of "linspace 0 1 2" "linspace 0 1 2" "linspace 0 1 2" 1 1 1]
    by (auto simp: length_linspace)
  from schrodinger3D_invalid_configuration [where Nx = 1 and Ny = 2 and Nz = 2
      and eigs = "\<lambda>H k sigma. Inr ([], [])" and xmin = 0 and xmax = 1 and ymin = 0 and ymax = 1
      and zmin = 0 and zmax = 1 and Vfun3D = Vfun and params = "[1, 1, 1]" and neigs = 1
      and ?E0.0 = 0 and findpsi = False]
  have short: "schrodinger3D (\<lambda>H k sigma. Inr ([], [])) 0 1 1 0 1 2 0 1 2 Vfun [1, 1, 1] 1 0 False =
     Inl IndexError"
    by simp
  from schrodinger3D_invalid_configuration [where Nx = 2 and Ny = 2 and Nz = 2
      and eigs = "\<lambda>H k sigma. Inr ([2 + of_nat k], [])" and xmin = 0 and xmax = 1 and ymin = 0 and ymax = 1
      and zmin = 0 and zmax = 1 and Vfun3D = Vfun and params = "[1, 1, 1]" and neigs = 9
      and ?E0.0 = 0 and findpsi = False and V = V] V
  have "\<exists>H. hamiltonian3D 0 1 2 0 1 2 0 1 2 Vfun [1, 1, 1] =
           Inr (linspace 0 1 2, linspace 0 1 2, linspace 0 1 2, H) \<and>
        nrows H = 8 \<and> ncols H = 8 \<and>
        schrodinger3D (\<lambda>H k sigma. Inr ([2 + k], [])) 0 1 2 0 1 2 0 1 2 Vfun [1, 1, 1] 9 0 False =
          Inr (Eigenvalues [11])"
    by (simp add: and_then_Inr)
  with short show ?thesis by (rule conjI)
qed

subsection \<open>C3: the tensor sum of the three axes\<close>

text \<open>
  C3: for all point counts and steps, \<open>schrodinger3D\<close> forms
  \<open>Hxy = kron(Iy, Hx) + kron(Hy, Ix)\<close> and then
  \<open>H = kron(Iz, Hxy) + kron(Hz, Ixy)\<close> with \<open>Ixy = kron(Iy, Ix)\<close>, which is the
  identity of the \<open>xy\<close> space; neither sum raises, and \<open>H\<close> is square of size \<open>Nx * Ny * Nz\<close>, symmetric, and its diagonal
  entry at the flat index \<open>i\<close> is the sum of the diagonal entries of \<open>Hx\<close>, \<open>Hy\<close>
  and \<open>Hz\<close> at the axis indices \<open>i mod Nx\<close>, \<open>i div Nx mod Ny\<close> and
  \<open>i div (Nx * Ny)\<close> of \<open>i\<close>.
\<close>

theorem kinetic3D_tensor_sum:
  "\<exists>Hx Hy Hz Hxy H.
     create_hamiltonian Nx dx = Inr Hx \<and> create_hamiltonian Ny dy = Inr Hy \<and>
     create_hamiltonian Nz dz = Inr Hz \<and>
     madd (kron (eye Ny Ny) Hx) (kron Hy (eye Nx Nx)) = Inr Hxy \<and>
     madd (kron (eye Nz Nz) Hxy) (kron Hz (kron (eye Ny Ny) (eye Nx Nx))) = Inr H \<and>
     (\<forall>q q'. ent (kron (eye Ny Ny) (eye Nx Nx)) q q' = (if q = q' then 1 else 0)) \<and>
     kinetic3D Nx dx Ny dy Nz dz = Inr H \<and>
     nrows H = Nx * Ny * Nz \<and> ncols H = Nx * Ny * Nz \<and>
     (\<forall>r < Nx * Ny * Nz. \<forall>c < Nx * Ny * Nz. ent H r c = ent H c r) \<and>
     (\<forall>i < Nx * Ny * Nz.
        ent H i i = ent Hx (i mod Nx) (i mod Nx) + ent Hy (i div Nx mod Ny) (i div Nx mod Ny) +
                    ent Hz (i div (Nx * Ny)) (i div (Nx * Ny)))"
proof -
  obtain Hx Hy Hz where ch: "create_hamiltonian Nx dx = Inr Hx"
    "create_hamiltonian Ny dy = Inr Hy" "create_hamiltonian Nz dz = Inr Hz"
    by (simp add: create_hamiltonian_eq)
  have shape: "nrows Hx = Nx" "ncols Hx = Nx" "nrows Hy = Ny" "ncols Hy = Ny"
    "nrows Hz = Nz" "ncols Hz = Nz"
    using ch by (auto simp: create_hamiltonian_eq)
  obtain Hxy where Hxy: "madd (kron (eye Ny Ny) Hx) (kron Hy (eye Nx Nx)) = Inr Hxy"
    using shape by (simp add: madd_def kron_def eye_def)
  have shape_xy: "nrows Hxy = Ny * Nx" "ncols Hxy = Ny * Nx"
    using Hxy shape by (auto simp: madd_def kron_def eye_def split: if_splits)
  obtain H where H: "madd (kron (eye Nz Nz) Hxy) (kron Hz (kron (eye Ny Ny) (eye Nx Nx))) = Inr H"
    using shape shape_xy by (simp add: madd_def kron_def eye_def)
  have kin: "kinetic3D Nx dx Ny dy Nz dz = Inr H"
    by (simp add: kinetic3D_def ch and_then_Inr Let_def Hxy H)
  from kinetic3D_entries [OF ch] kin
  have dims: "nrows H = Nx * Ny * Nz" "ncols H = Nx * Ny * Nz"
    and entries: "\<And>r c. ent H r c =
       (if r div (Ny * Nx) = c div (Ny * Nx) \<and> (r div Nx) mod Ny = (c div Nx) mod Ny
        then ent Hx (r mod Nx) (c mod Nx) else 0) +
       (if r div (Ny * Nx) = c div (Ny * Nx) \<and> r mod Nx = c mod Nx
        then ent Hy ((r div Nx) mod Ny) ((c div Nx) mod Ny) else 0) +
       (if (r div Nx) mod Ny = (c div Nx) mod Ny \<and> r mod Nx = c mod Nx
        then ent Hz (r div (Ny * Nx)) (c div (Ny * Nx)) else 0)"
    by auto
  have sym: "ent H r c = ent H c r" for r c
    unfolding entries [of r c] entries [of c r]
    using create_hamiltonian_symmetric [OF ch(1)] create_hamiltonian_symmetric [OF ch(2)]
      create_hamiltonian_symmetric [OF ch(3)]
    by (simp add: eq_commute)
  have diag: "ent H i i = ent Hx (i mod Nx) (i mod Nx) + ent Hy (i div Nx mod Ny) (i div Nx mod Ny) +
                    ent Hz (i div (Nx * Ny)) (i div (Nx * Ny))" for i
    unfolding entries [of i i] by (simp add: mult.commute)
  show ?thesis
    using ch Hxy H kin dims sym diag kron_eye_eye by blast
qed

theorem kinetic3D_tensor_sum_witness:
  "\<exists>H. kinetic3D 2 1 3 (1 / 2) 2 1 = Inr H \<and> nrows H = 12 \<and> ncols H = 12 \<and>
        ent H 5 7 = ent H 7 5 \<and> ent H 5 5 = 12"
proof -
  from kinetic3D_tensor_sum [of 2 1 3 "1 / 2" 2 1]
  obtain Hx Hy Hz H where ch: "create_hamiltonian 2 1 = Inr Hx"
    "create_hamiltonian 3 (1 / 2) = Inr Hy" "create_hamiltonian 2 1 = Inr Hz"
    and kin: "kinetic3D 2 1 3 (1 / 2) 2 1 = Inr H" "nrows H = 2 * 3 * 2" "ncols H = 2 * 3 * 2"
    and sym: "\<forall>r < 2 * 3 * 2. \<forall>c < 2 * 3 * 2. ent H r c = ent H c r"
    and diag: "\<forall>i < 2 * 3 * 2. ent H i i = ent Hx (i mod 2) (i mod 2) +
        ent Hy (i div 2 mod 3) (i div 2 mod 3) + ent Hz (i div (2 * 3)) (i div (2 * 3))"
    by blast
  from sym have "ent H 5 7 = ent H 7 5" by simp
  moreover from diag [rule_format, of 5] ch have "ent H 5 5 = 12"
    by (auto simp: create_hamiltonian_eq power2_eq_square)
  ultimately show ?thesis using kin by simp
qed

subsection \<open>C4: the stencil of \<open>create_hamiltonian\<close>\<close>

text \<open>
  C4, as stated, asks for every \<open>N \<ge> 2\<close> that the corners \<open>(0, N - 1)\<close> and
  \<open>(N - 1, 0)\<close> are zero. For \<open>N = 2\<close> the corners are the two couplings at offset
  \<open>+1\<close> and \<open>-1\<close>, and \<open>create_hamiltonian(2, 1)\<close> holds \<open>-1\<close> there.
\<close>

theorem create_hamiltonian_corner_counterexample:
  "and_then (create_hamiltonian 2 1) (\<lambda>H. mget H 0 (2 - 1)) = Inr (- 1) \<and>
   and_then (create_hamiltonian 2 1) (\<lambda>H. mget H (2 - 1) 0) = Inr (- 1) \<and>
   \<not> (\<exists>H. create_hamiltonian 2 1 = Inr H \<and> ent H 0 (2 - 1) = 0 \<and> ent H (2 - 1) 0 = 0)"
  by (simp add: create_hamiltonian_eq and_then_Inr mget_def)

text \<open>
  C4 (amended): for every \<open>N \<ge> 2\<close> and \<open>dx \<noteq> 0\<close>, \<open>create_hamiltonian(N, dx)\<close>
  returns an \<open>N\<close> by \<open>N\<close> symmetric matrix with \<open>2/dx\<^sup>2\<close> on the diagonal, \<open>-1/dx\<^sup>2\<close> at
  the offsets \<open>+1\<close> and \<open>-1\<close>, and zero everywhere else; the corners \<open>(0, N - 1)\<close> and
  \<open>(N - 1, 0)\<close> are zero from \<open>N = 3\<close> on. For \<open>N = 3\<close> and \<open>dx = 1\<close> the matrix is
  \<open>[[2,-1,0],[-1,2,-1],[0,-1,2]]\<close>.
\<close>

theorem create_hamiltonian_tridiagonal:
  assumes "2 \<le> N" and "dx \<noteq> 0"
  shows "(\<exists>H. create_hamiltonian N dx = Inr H \<and> nrows H = N \<and> ncols H = N \<and>
            (\<forall>i<N. \<forall>j<N. ent H i j = ent H j i) \<and>
            (\<forall>i<N. ent H i i = 2 / dx ^ 2) \<and>
            (\<forall>i. i + 1 < N \<longrightarrow> ent H i (i + 1) = - 1 / dx ^ 2 \<and> ent H (i + 1) i = - 1 / dx ^ 2) \<and>
            (\<forall>i<N. \<forall>j<N. i \<noteq> j \<and> i + 1 \<noteq> j \<and> j + 1 \<noteq> i \<longrightarrow> ent H i j = 0) \<and>
            (3 \<le> N \<longrightarrow> ent H 0 (N - 1) = 0 \<and> ent H (N - 1) 0 = 0))
         \<and> map_sum id todense (create_hamiltonian 3 1) = Inr [[2, - 1, 0], [- 1, 2, - 1], [0, - 1, 2]]"
proof
  show "map_sum id todense (create_hamiltonian 3 1) = Inr [[2, - 1, 0], [- 1, 2, - 1], [0, - 1, 2]]"
    by (simp add: create_hamiltonian_eq todense_def upt_rec)
  show "\<exists>H. create_hamiltonian N dx = Inr H \<and> nrows H = N \<and> ncols H = N \<and>
            (\<forall>i<N. \<forall>j<N. ent H i j = ent H j i) \<and>
            (\<forall>i<N. ent H i i = 2 / dx ^ 2) \<and>
            (\<forall>i. i + 1 < N \<longrightarrow> ent H i (i + 1) = - 1 / dx ^ 2 \<and> ent H (i + 1) i = - 1 / dx ^ 2) \<and>
            (\<forall>i<N. \<forall>j<N. i \<noteq> j \<and> i + 1 \<noteq> j \<and> j + 1 \<noteq> i \<longrightarrow> ent H i j = 0) \<and>
            (3 \<le> N \<longrightarrow> ent H 0 (N - 1) = 0 \<and> ent H (N - 1) 0 = 0)"
    using assms by (auto simp: create_hamiltonian_eq)
qed

theorem create_hamiltonian_tridiagonal_witness:
  "(2::nat) \<le> 4 \<and> (1 / 2 :: real) \<noteq> 0 \<and>
   (\<exists>H. create_hamiltonian 4 (1 / 2) = Inr H \<and> nrows H = 4 \<and> ncols H = 4 \<and>
        ent H 1 1 = 8 \<and> ent H 1 2 = - 4 \<and> ent H 2 1 = - 4 \<and> ent H 1 3 = 0 \<and>
        ent H 0 3 = 0 \<and> ent H 3 0 = 0)"
proof -
  have h: "(2::nat) \<le> 4" "(1 / 2 :: real) \<noteq> 0" by simp_all
  from create_hamiltonian_tridiagonal [OF h]
  obtain H where H: "create_hamiltonian 4 (1 / 2) = Inr H" "nrows H = 4" "ncols H = 4"
    and diag: "\<forall>i<4. ent H i i = 2 / (1 / 2) ^ 2"
    and off: "\<forall>i. i + 1 < 4 \<longrightarrow> ent H i (i + 1) = - 1 / (1 / 2) ^ 2 \<and> ent H (i + 1) i = - 1 / (1 / 2) ^ 2"
    and rest: "\<forall>i<4. \<forall>j<4. i \<noteq> j \<and> i + 1 \<noteq> j \<and> j + 1 \<noteq> i \<longrightarrow> ent H i j = 0"
    and corner: "(3::nat) \<le> 4 \<longrightarrow> ent H 0 (4 - 1) = 0 \<and> ent H (4 - 1) 0 = 0"
    by blast
  from diag have "ent H 1 1 = 8" by (simp add: power2_eq_square)
  moreover from off [rule_format, of 1] have "ent H 1 2 = - 4" "ent H 2 1 = - 4"
    by (simp_all add: power2_eq_square numeral_2_eq_2)
  moreover from rest [rule_format, of 1 3] have "ent H 1 3 = 0" by simp
  moreover from corner have "ent H 0 3 = 0" "ent H 3 0 = 0" by simp_all
  ultimately show ?thesis using H h by blast
qed

subsection \<open>C5: what is returned\<close>

text \<open>
  C5: a call that returns has assembled the matrix on the grids
  \<open>linspace(xmin, xmax, Nx)\<close>, \<open>linspace(ymin, ymax, Ny)\<close>, \<open>linspace(zmin, zmax, Nz)\<close>
  and got eigenvalues and eigenvectors from the eigensolver; with \<open>findpsi\<close> false it
  returns those eigenvalues alone, with \<open>findpsi\<close> true the eigenvalues, the eigenvectors
  and these three grids.
\<close>

theorem schrodinger3D_returns:
  assumes "schrodinger3D eigs xmin xmax Nx ymin ymax Ny zmin zmax Nz Vfun3D params neigs E0 findpsi = Inr r"
  shows "\<exists>H evl evt.
     hamiltonian3D xmin xmax Nx ymin ymax Ny zmin zmax Nz Vfun3D params =
       Inr (linspace xmin xmax Nx, linspace ymin ymax Ny, linspace zmin zmax Nz, H) \<and>
     eigs H neigs E0 = Inr (evl, evt) \<and>
     (findpsi = False \<longrightarrow> r = Eigenvalues evl) \<and>
     (findpsi = True \<longrightarrow>
        r = Eigenpairs evl evt (linspace xmin xmax Nx) (linspace ymin ymax Ny) (linspace zmin zmax Nz))"
proof -
  from assms obtain x y z H where ham:
    "hamiltonian3D xmin xmax Nx ymin ymax Ny zmin zmax Nz Vfun3D params = Inr (x, y, z, H)"
    by (cases "hamiltonian3D xmin xmax Nx ymin ymax Ny zmin zmax Nz Vfun3D params")
       (auto simp: schrodinger3D_def and_then_def)
  from hamiltonian3D_grids [OF ham]
  have grids: "x = linspace xmin xmax Nx" "y = linspace ymin ymax Ny" "z = linspace zmin zmax Nz"
    by simp_all
  from assms ham obtain evl evt where solve: "eigs H neigs E0 = Inr (evl, evt)"
    and r: "r = (if findpsi = False then Eigenvalues evl else Eigenpairs evl evt x y z)"
    by (cases "eigs H neigs E0") (auto simp: schrodinger3D_def and_then_def split: if_splits)
  show ?thesis
    using ham solve r unfolding grids by auto
qed

theorem schrodinger3D_returns_witness:
  "schrodinger3D (\<lambda>H k sigma. Inr ([3], [[1]])) 0 1 2 0 1 2 0 1 2 Vfun [1, 1, 1] 1 0 False =
     Inr (Eigenvalues [3]) \<and>
   schrodinger3D (\<lambda>H k sigma. Inr ([3], [[1]])) 0 1 2 0 1 2 0 1 2 Vfun [1, 1, 1] 1 0 True =
     Inr (Eigenpairs [3] [[1]] (linspace 0 1 2) (linspace 0 1 2) (linspace 0 1 2)) \<and>
   (\<exists>H. hamiltonian3D 0 1 2 0 1 2 0 1 2 Vfun [1, 1, 1] =
        Inr (linspace 0 1 2, linspace 0 1 2, linspace 0 1 2, H))"
proof -
  obtain V where V: "Vfun (linspace 0 1 2) (linspace 0 1 2) (linspace 0 1 2) [1, 1, 1] = Inr V"
    "length V = 2 * 2 * 2"
    using Vfun_length [of "linspace 0 1 2" "linspace 0 1 2" "linspace 0 1 2" 1 1 1]
    by (auto simp: length_linspace)
  have len: "2 * 2 * 2 \<le> length V" using V(2) by simp
  have two: "(2::nat) \<le> 2" by simp
  note run = schrodinger3D_valid [where Vfun3D = Vfun and params = "[1, 1, 1]" and xmin = 0
      and xmax = 1 and ymin = 0 and ymax = 1 and zmin = 0 and zmax = 1 and neigs = 1 and ?E0.0 = 0
      and eigs = "\<lambda>H k sigma. Inr ([3], [[1]])", OF two two two V(1) len]
  from run [where findpsi = False]
  obtain r0 where r0: "schrodinger3D (\<lambda>H k sigma. Inr ([3], [[1]])) 0 1 2 0 1 2 0 1 2 Vfun [1, 1, 1] 1 0 False = Inr r0"
    by (auto simp: and_then_Inr)
  from run [where findpsi = True]
  obtain r1 where r1: "schrodinger3D (\<lambda>H k sigma. Inr ([3], [[1]])) 0 1 2 0 1 2 0 1 2 Vfun [1, 1, 1] 1 0 True = Inr r1"
    by (auto simp: and_then_Inr)
  from schrodinger3D_returns [OF r0] have "r0 = Eigenvalues [3]"
    by auto
  moreover from schrodinger3D_returns [OF r1]
  have "r1 = Eigenpairs [3] [[1]] (linspace 0 1 2) (linspace 0 1 2) (linspace 0 1 2)"
    and "\<exists>H. hamiltonian3D 0 1 2 0 1 2 0 1 2 Vfun [1, 1, 1] =
        Inr (linspace 0 1 2, linspace 0 1 2, linspace 0 1 2, H)"
    by auto
  ultimately show ?thesis using r0 r1 by simp
qed

subsection \<open>C6: two runs with the same inputs\<close>

text \<open>
  C6 is not stated. \<open>schrodinger3D\<close> above is a function of its arguments and of the
  eigensolver it is given, so that two evaluations agree is reflexivity. What can differ
  between two runs of the notebook is inside \<open>sla.eigs\<close>: the start vector of the
  iteration and its floating-point arithmetic, neither of which is part of this model.
\<close>

subsection \<open>C7: the grid of an axis and its step\<close>




subsection \<open>C8: the isotropic example\<close>

text \<open>
  C8 asks that with equal axes and equal \<open>params\<close> the vector of \<open>Vfun\<close> is the vector
  of the reversed nesting. On the axes \<open>linspace(0, 1, 3)\<close> with \<open>params = [0.1, 0.1, 0.1]\<close>
  the cell 14 is \<open>(t[1] + t[1]) + t[2]\<close> in \<open>Vfun\<close> and \<open>(t[2] + t[1]) + t[1]\<close> in the
  reversed nesting, for \<open>t[i] = 0.1 * x[i] ** 2\<close>; in \<open>float64\<close> the first is
  \<open>1351079888211149 / 2 ^ 53\<close> (0.15000000000000002), the second
  \<open>5404319552844595 / 2 ^ 55\<close> (0.15).
\<close>

theorem Vfun_order_counterexample:
  "map_sum id f64_val
     (and_then (Vfun (linspace_f64 (F64 0 0) (F64 1 0) 3) (linspace_f64 (F64 0 0) (F64 1 0) 3)
                  (linspace_f64 (F64 0 0) (F64 1 0) 3)
                  [f64_round 1 10 0, f64_round 1 10 0, f64_round 1 10 0])
        (\<lambda>V. getitem V 14)) = Inr (1351079888211149 / 2 ^ 53) \<and>
   map_sum id f64_val
     (and_then (Vfun_reversed (linspace_f64 (F64 0 0) (F64 1 0) 3) (linspace_f64 (F64 0 0) (F64 1 0) 3)
                  (linspace_f64 (F64 0 0) (F64 1 0) 3)
                  [f64_round 1 10 0, f64_round 1 10 0, f64_round 1 10 0])
        (\<lambda>V. getitem V 14)) = Inr (5404319552844595 / 2 ^ 55) \<and>
   (1351079888211149 / 2 ^ 53 :: real) \<noteq> 5404319552844595 / 2 ^ 55"
proof -
  have a: "and_then (Vfun (linspace_f64 (F64 0 0) (F64 1 0) 3) (linspace_f64 (F64 0 0) (F64 1 0) 3)
                  (linspace_f64 (F64 0 0) (F64 1 0) 3)
                  [f64_round 1 10 0, f64_round 1 10 0, f64_round 1 10 0])
        (\<lambda>V. getitem V 14) = Inr (F64 5404319552844596 (- 55))"
    by code_simp
  have b: "and_then (Vfun_reversed (linspace_f64 (F64 0 0) (F64 1 0) 3) (linspace_f64 (F64 0 0) (F64 1 0) 3)
                  (linspace_f64 (F64 0 0) (F64 1 0) 3)
                  [f64_round 1 10 0, f64_round 1 10 0, f64_round 1 10 0])
        (\<lambda>V. getitem V 14) = Inr (F64 5404319552844595 (- 55))"
    by code_simp
  show ?thesis
    unfolding a b by (simp add: f64_val_def)
qed

text \<open>
  C8 (amended): in exact real arithmetic, when the three axes have the same
  \<open>(min, max, count)\<close> and the three entries of \<open>params\<close> are equal, the vector of
  \<open>Vfun\<close> (\<open>x\<close> outermost, \<open>z\<close> innermost) is the vector of the reversed nesting; its
  entry at \<open>q\<close> is the potential at the axis indices \<open>q mod N\<close>, \<open>q div N mod N\<close>,
  \<open>q div (N * N)\<close> that the Kronecker chain gives \<open>q\<close>, and the assembled matrix is
  the same for either nesting.
\<close>

theorem Vfun_isotropic_order:
  "Vfun (linspace a b N) (linspace a b N) (linspace a b N) [p, p, p] =
     Vfun_reversed (linspace a b N) (linspace a b N) (linspace a b N) [p, p, p] \<and>
   (\<exists>V. Vfun (linspace a b N) (linspace a b N) (linspace a b N) [p, p, p] = Inr V \<and>
        length V = N * N * N \<and>
        (\<forall>q < N * N * N.
           V ! q = p * (linspace a b N ! (q mod N)) ^ 2 + p * (linspace a b N ! (q div N mod N)) ^ 2 +
                   p * (linspace a b N ! (q div (N * N))) ^ 2)) \<and>
   hamiltonian3D a b N a b N a b N Vfun [p, p, p] =
     hamiltonian3D a b N a b N a b N Vfun_reversed [p, p, p]"
proof -
  let ?X = "linspace a b N"
  have same: "Vfun ?X ?X ?X [p, p, p] = Vfun_reversed ?X ?X ?X [p, p, p]"
    unfolding Vfun_eq Vfun_reversed_eq
    by (simp add: mod_mult_div_nat [symmetric] mod_mult_mod_nat algebra_simps)
  have order: "\<exists>V. Vfun ?X ?X ?X [p, p, p] = Inr V \<and> length V = N * N * N \<and>
        (\<forall>q < N * N * N.
           V ! q = p * (?X ! (q mod N)) ^ 2 + p * (?X ! (q div N mod N)) ^ 2 +
                   p * (?X ! (q div (N * N))) ^ 2)"
    unfolding same Vfun_reversed_eq by (simp add: length_linspace)
  have "hamiltonian3D a b N a b N a b N Vfun [p, p, p] =
     hamiltonian3D a b N a b N a b N Vfun_reversed [p, p, p]"
    using same by (simp add: hamiltonian3D_def Let_def)
  with same order show ?thesis by blast
qed

theorem Vfun_isotropic_order_witness:
  "Vfun (linspace (- 5) 5 3) (linspace (- 5) 5 3) (linspace (- 5) 5 3) [1, 1, 1] =
     Vfun_reversed (linspace (- 5) 5 3) (linspace (- 5) 5 3) (linspace (- 5) 5 3) [1, 1, 1] \<and>
   (\<exists>V. Vfun (linspace (- 5) 5 3) (linspace (- 5) 5 3) (linspace (- 5) 5 3) [1, 1, 1] = Inr V \<and>
        length V = 27 \<and> V ! 5 = 50)"
proof -
  from Vfun_isotropic_order [of "- 5" 5 3 1]
  obtain V where same: "Vfun (linspace (- 5) 5 3) (linspace (- 5) 5 3) (linspace (- 5) 5 3) [1, 1, 1] =
     Vfun_reversed (linspace (- 5) 5 3) (linspace (- 5) 5 3) (linspace (- 5) 5 3) [1, 1, 1]"
    and V: "Vfun (linspace (- 5) 5 3) (linspace (- 5) 5 3) (linspace (- 5) 5 3) [1, 1, 1] = Inr V"
      "length V = 3 * 3 * 3"
    and nth: "\<forall>q < 3 * 3 * 3. V ! q = 1 * (linspace (- 5) 5 3 ! (q mod 3)) ^ 2 +
        1 * (linspace (- 5) 5 3 ! (q div 3 mod 3)) ^ 2 + 1 * (linspace (- 5) 5 3 ! (q div (3 * 3))) ^ 2"
    by blast
  from nth [rule_format, of 5] have "V ! 5 = 50"
    by (simp add: linspace_nth)
  moreover have "length V = 27" using V(2) by simp
  ultimately show ?thesis using same V(1) by blast
qed

subsection \<open>C9: an axis of one point\<close>

text \<open>
  C9: an array of one point has no cell 1, so \<open>x[1] - x[0]\<close> raises IndexError; a call
  with such an axis fails with it before the potential function, the assembly and the
  eigensolver, whatever they are. \<open>neigs\<close> is only passed on to the eigensolver: the call
  with any other count and an eigensolver that is given \<open>neigs\<close> instead behaves the same.
\<close>

theorem schrodinger3D_one_point_axis:
  "(Nx = 1 \<or> Ny = 1 \<or> Nz = 1 \<longrightarrow>
      schrodinger3D eigs xmin xmax Nx ymin ymax Ny zmin zmax Nz Vfun3D params neigs E0 findpsi =
        Inl IndexError \<and>
      hamiltonian3D xmin xmax Nx ymin ymax Ny zmin zmax Nz Vfun3D params = Inl IndexError \<and>
      (step_size (linspace xmin xmax Nx) = Inl IndexError \<or>
       step_size (linspace ymin ymax Ny) = Inl IndexError \<or>
       step_size (linspace zmin zmax Nz) = Inl IndexError)) \<and>
   length (linspace xmin xmax 1) = 1 \<and> getitem (linspace xmin xmax 1) 1 = Inl IndexError \<and>
   step_size (linspace xmin xmax 1) = Inl IndexError \<and>
   (\<forall>k. schrodinger3D (\<lambda>H n. eigs H neigs) xmin xmax Nx ymin ymax Ny zmin zmax Nz Vfun3D params k E0 findpsi =
        schrodinger3D eigs xmin xmax Nx ymin ymax Ny zmin zmax Nz Vfun3D params neigs E0 findpsi)"
proof -
  have neigs: "schrodinger3D (\<lambda>H n. eigs H neigs) xmin xmax Nx ymin ymax Ny zmin zmax Nz Vfun3D params k E0 findpsi =
        schrodinger3D eigs xmin xmax Nx ymin ymax Ny zmin zmax Nz Vfun3D params neigs E0 findpsi" for k
    by (simp add: schrodinger3D_def)
  have one: "length (linspace xmin xmax 1) = 1" "getitem (linspace xmin xmax 1) 1 = Inl IndexError"
    "step_size (linspace xmin xmax 1) = Inl IndexError"
    by (simp_all add: length_linspace getitem_def step_size_linspace)
  have "schrodinger3D eigs xmin xmax Nx ymin ymax Ny zmin zmax Nz Vfun3D params neigs E0 findpsi =
        Inl IndexError \<and>
      hamiltonian3D xmin xmax Nx ymin ymax Ny zmin zmax Nz Vfun3D params = Inl IndexError \<and>
      (step_size (linspace xmin xmax Nx) = Inl IndexError \<or>
       step_size (linspace ymin ymax Ny) = Inl IndexError \<or>
       step_size (linspace zmin zmax Nz) = Inl IndexError)"
    if "Nx = 1 \<or> Ny = 1 \<or> Nz = 1"
  proof -
    from that have short: "Nx < 2 \<or> Ny < 2 \<or> Nz < 2" by auto
    from that have "step_size (linspace xmin xmax Nx) = Inl IndexError \<or>
       step_size (linspace ymin ymax Ny) = Inl IndexError \<or>
       step_size (linspace zmin zmax Nz) = Inl IndexError"
      by (auto simp: step_size_linspace)
    then show ?thesis
      by (simp add: schrodinger3D_short_axis [OF short] hamiltonian3D_short_axis [OF short])
  qed
  with neigs one show ?thesis by blast
qed

theorem schrodinger3D_one_point_axis_witness:
  "schrodinger3D (\<lambda>H k sigma. Inr ([], [])) (- 5) 5 30 (- 5) 5 1 (- 5) 5 30 Vfun [1, 1, 1] 10 0 False =
     Inl IndexError \<and>
   step_size (linspace (- 5) 5 1) = Inl IndexError"
  using schrodinger3D_one_point_axis [where Nx = 30 and Ny = 1 and Nz = 30
      and eigs = "\<lambda>H k sigma. Inr ([], [])" and xmin = "- 5" and xmax = 5 and ymin = "- 5" and ymax = 5
      and zmin = "- 5" and zmax = 5 and Vfun3D = Vfun and params = "[1, 1, 1]" and neigs = 10
      and ?E0.0 = 0 and findpsi = False]
  by simp

subsection \<open>C10: \<open>idft\<close> inverts \<open>dft\<close>\<close>

text \<open>
  C10: for a vector of any length \<open>N \<ge> 1\<close>, a power of two or not, \<open>idft(dft(X)) = X\<close>
  and \<open>dft(idft(X)) = X\<close>, over the complex numbers without rounding.
\<close>

theorem dft_idft_inverse:
  assumes "1 \<le> length X"
  shows "idft (dft X) = X \<and> dft (idft X) = X"
  by (simp add: idft_dft dft_idft)

theorem dft_idft_inverse_witness:
  "1 \<le> length [1, \<i>, - 2 :: complex] \<and>
   idft (dft [1, \<i>, - 2]) = [1, \<i>, - 2] \<and> dft (idft [1, \<i>, - 2]) = [1, \<i>, - 2]"
proof -
  have h: "1 \<le> length [1, \<i>, - 2 :: complex]" by simp
  from dft_idft_inverse [OF h] h show ?thesis by simp
qed

end
